theory Spec2Isabelle
  imports Main "HOL-Library.Word" "HOL-Library.AList" "HOL-Library.Char_ord" "HOL-Library.List_Lexorder"
begin

section \<open>urlf: URL templates, their parser and their formatter\<close>

text \<open>
  The Go package \<^verbatim>\<open>urlf\<close> builds a URL from a template such as
  \<^verbatim>\<open>http://example.com/users/{}?key={}\<close> and positional arguments. The template
  is split into tokens and parsed by a state machine (\<^verbatim>\<open>parse\<close>, parser.go) into a
  \<^verbatim>\<open>parseResult\<close>; \<^verbatim>\<open>overwrite\<close> merges the options of a custom formatter
  into it, and the function returned by \<^verbatim>\<open>TryCustomFormatter\<close> binds the arguments
  and lets \<^verbatim>\<open>net/url\<close> print the result.

  Go strings are byte strings, and so is \<^typ>\<open>string\<close>. A Go function that returns
  \<^verbatim>\<open>(value, error)\<close> returns a sum here, and a run-time panic (an index out of
  range, a nil pointer dereferenced) is a failure of its own, since the caller of the
  \<^verbatim>\<open>Try\<close> functions can tell it from a returned error.
\<close>

subsection \<open>Failures\<close>

text \<open>
  Every error of the package wraps one of the two sentinel values
  \<^verbatim>\<open>ErrParseFailed\<close> and \<^verbatim>\<open>ErrFormatFailed\<close>. The message text that
  \<^verbatim>\<open>fmt.Errorf\<close> adds is represented by the place that raised it.
\<close>

datatype parse_site =
    EmptyProtocol
  | ProtocolSeparator string
  | HostnameSeparator string
  | PortSeparator string
  | PortNotANumber string
  | PortOutOfRange int
  | PortMissing
  | PathPlaceholder
  | PathText string
  | PathSeparator string
  | QuerySeparator string
  | QueryPlaceholder nat
  | QueryText string
  | QueryKeySeparator string
  | QuerySetText string
  | QuerySetSeparator string
  | QueryKeyFollower string
  | QueryValueSeparator string
  | QueryValuePlaceholder nat
  | QueryValueText string
  | QueryValueFollower string
  | FragmentSeparator string
  | ExtraToken
  | OverridePort string
  | OverrideCredentials

datatype format_site =
    ProtocolValue
  | HostnameValue
  | PortValue
  | QueryValue
  | QuerySetValue
  | FragmentValue

datatype runtime_panic = IndexOutOfRange | NilDereference

datatype failure =
    ErrParseFailed parse_site
  | ErrFormatFailed format_site
  | Panic runtime_panic

subsection \<open>strconv\<close>

text \<open>
  Go's \<^verbatim>\<open>int\<close> is taken as 64 bits wide. \<^verbatim>\<open>strconv.Itoa\<close> prints a decimal
  numeral; \<^verbatim>\<open>strconv.Atoi\<close> reads an optional sign and at least one decimal digit and
  fails on anything else and on a value that does not fit; \<^verbatim>\<open>strconv.ParseUint(s, 10, 16)\<close>
  reads digits only and fails above 65535.
\<close>

definition digit_char :: "nat \<Rightarrow> char" where
  "digit_char d = ''0123456789'' ! d"

fun nat_digits :: "nat \<Rightarrow> string" where
  "nat_digits n = (if n < 10 then [digit_char n] else nat_digits (n div 10) @ [digit_char (n mod 10)])"

declare nat_digits.simps [simp del]

definition Itoa :: "int \<Rightarrow> string" where
  "Itoa i = (if i < 0 then CHR ''-'' # nat_digits (nat (- i)) else nat_digits (nat i))"

definition is_digit :: "char \<Rightarrow> bool" where
  "is_digit c = (of_char CHR ''0'' \<le> (of_char c :: nat) \<and> (of_char c :: nat) \<le> of_char CHR ''9'')"

definition digit_val :: "char \<Rightarrow> nat" where
  "digit_val c = of_char c - of_char CHR ''0''"

definition digits_val :: "string \<Rightarrow> nat" where
  "digits_val s = foldl (\<lambda>n c. 10 * n + digit_val c) 0 s"

definition all_digits :: "string \<Rightarrow> bool" where
  "all_digits s = (s \<noteq> [] \<and> list_all is_digit s)"

definition Atoi :: "string \<Rightarrow> int option" where
  "Atoi s =
     (let neg = (s \<noteq> [] \<and> hd s = CHR ''-'');
          body = (if s \<noteq> [] \<and> (hd s = CHR ''-'' \<or> hd s = CHR ''+'') then tl s else s)
      in if \<not> all_digits body then None
         else let v = (if neg then - int (digits_val body) else int (digits_val body))
              in if - (2 ^ 63) \<le> v \<and> v < 2 ^ 63 then Some v else None)"

definition ParseUint16 :: "string \<Rightarrow> nat option" where
  "ParseUint16 s =
     (if \<not> all_digits s then None
      else if digits_val s < 2 ^ 16 then Some (digits_val s) else None)"

subsection \<open>The template model (parser.go)\<close>

text \<open>
  A \<^verbatim>\<open>part[T]\<close> is either a static part with its value or a parametric part with
  the index of the argument that fills it; the parser and \<^verbatim>\<open>overwrite\<close> build no
  other shape. A nil pointer to a part is \<^term>\<open>None\<close>.
\<close>

datatype 'a part = StaticPart 'a | ParamPart nat

record queryPart =
  key :: string
  qvalue :: "string part"

record parseResult =
  protocol :: "string part option"
  hostname :: "string part option"
  port :: "16 word part option"
  paths :: "string part list"
  queries :: "queryPart list"
  fragment :: "string part option"
  username :: string
  password :: string

definition empty_parseResult :: parseResult where
  "empty_parseResult =
     \<lparr>protocol = None, hostname = None, port = None, paths = [], queries = [],
      fragment = None, username = [], password = []\<rparr>"

datatype stepType =
  protocolStep | hostnameStep | portStep | pathStep | queryStep | queryKeyStep |
  queryValueStep | fragmentStep | invalidStep

datatype token = separator string | static string | placeholder nat

subsection \<open>Splitting a template into tokens\<close>

text \<open>
  \<^verbatim>\<open>splitterPattern\<close> is \<^verbatim>\<open>(?::\/\/)|(?:\/\/)|[:/?&=#@]|\{\}\<close>. The matches
  are found from left to right, the alternatives tried in this order at each position;
  the text between two matches is a static token, and the placeholders are numbered from
  0. The second argument is the static text read since the last match, the third the
  next placeholder index.
\<close>

definition single_separator :: "char \<Rightarrow> bool" where
  "single_separator c = (c \<in> set '':/?&=#@'')"

definition flush :: "string \<Rightarrow> token list" where
  "flush acc = (if acc = [] then [] else [static acc])"

fun tokenize :: "string \<Rightarrow> string \<Rightarrow> nat \<Rightarrow> token list" where
  "tokenize [] acc n = flush acc"
| "tokenize (c # cs) acc n =
     (if take 3 (c # cs) = ''://'' then
        flush acc @ separator ''://'' # tokenize (drop 2 cs) [] n
      else if take 2 (c # cs) = ''//'' then
        flush acc @ separator ''//'' # tokenize (drop 1 cs) [] n
      else if single_separator c then
        flush acc @ separator [c] # tokenize cs [] n
      else if take 2 (c # cs) = ''{}'' then
        flush acc @ placeholder n # tokenize (drop 1 cs) [] (Suc n)
      else tokenize cs (acc @ [c]) n)"

subsection \<open>The structural parser\<close>

text \<open>
  The parser is a loop over the remaining tokens with a current step. Its state is the
  step, the tokens left, the result built so far and the key of the query entry being
  read (\<^verbatim>\<open>queryKeyStr\<close>); \<^verbatim>\<open>lastToken\<close> only feeds error messages and is
  left out. Each of the following functions is one case of the \<^verbatim>\<open>switch\<close> on the
  step, applied to a non-empty token list.
\<close>

type_synonym parse_state = "stepType \<times> token list \<times> parseResult \<times> string"

fun tok_text :: "token \<Rightarrow> string" where
  "tok_text (separator s) = s"
| "tok_text (static s) = s"
| "tok_text (placeholder i) = []"

fun invalidSeparator :: "stepType \<Rightarrow> string \<Rightarrow> bool" where
  "invalidSeparator protocolStep s = (s \<in> set [''://'', '':'', ''?'', ''='', ''&'', ''#'', ''@''])"
| "invalidSeparator pathStep s = (s \<in> set [''://'', ''//'', '':'', ''='', ''&'', ''@''])"
| "invalidSeparator queryStep s = (s \<in> set [''://'', ''//'', '':'', ''/'', ''='', ''&'', ''@''])"
| "invalidSeparator queryKeyStep s = (s \<in> set [''://'', ''//'', '':'', ''/'', ''?'', ''@''])"
| "invalidSeparator queryValueStep s = (s \<in> set [''://'', ''//'', '':'', ''/'', ''?'', ''='', ''@''])"
| "invalidSeparator _ s = False"

definition appendPath :: "string \<Rightarrow> parseResult \<Rightarrow> parseResult" where
  "appendPath pathString result =
     (if paths result = [] then result\<lparr>paths := [StaticPart pathString]\<rparr>
      else case last (paths result) of
             StaticPart v \<Rightarrow>
               result\<lparr>paths := butlast (paths result) @ [StaticPart (v @ pathString)]\<rparr>
           | ParamPart i \<Rightarrow>
               result\<lparr>paths := paths result @ [StaticPart pathString]\<rparr>)"

definition protocolCase :: "token list \<Rightarrow> parseResult \<Rightarrow> string \<Rightarrow> failure + parse_state" where
  "protocolCase tokens result qk =
     (let p = hd tokens in
      if length tokens > 1 then
        if tokens ! 1 = separator ''://'' then
          (case p of
             placeholder i \<Rightarrow>
               Inr (hostnameStep, drop 2 tokens, result\<lparr>protocol := Some (ParamPart i)\<rparr>, qk)
           | _ \<Rightarrow>
               if p = static [] then Inl (ErrParseFailed EmptyProtocol)
               else Inr (hostnameStep, drop 2 tokens,
                         result\<lparr>protocol := Some (StaticPart (tok_text p))\<rparr>, qk))
        else
          (case p of
             separator s \<Rightarrow>
               if invalidSeparator protocolStep s then Inl (ErrParseFailed (ProtocolSeparator s))
               else if s = ''//'' then Inr (hostnameStep, drop 1 tokens, result, qk)
               else Inr (pathStep, tokens, result, qk)
           | _ \<Rightarrow> Inr (pathStep, tokens, result, qk))
      else Inr (protocolStep, tokens, result, qk))"

definition hostnameCase :: "token list \<Rightarrow> parseResult \<Rightarrow> string \<Rightarrow> failure + parse_state" where
  "hostnameCase tokens result qk =
     (case hd tokens of
        separator s \<Rightarrow> Inl (ErrParseFailed (HostnameSeparator s))
      | placeholder i \<Rightarrow>
          Inr (portStep, drop 1 tokens, result\<lparr>hostname := Some (ParamPart i)\<rparr>, qk)
      | static s \<Rightarrow>
          Inr (portStep, drop 1 tokens, result\<lparr>hostname := Some (StaticPart s)\<rparr>, qk))"

definition portCase :: "token list \<Rightarrow> parseResult \<Rightarrow> string \<Rightarrow> failure + parse_state" where
  "portCase tokens result qk =
     (if hd tokens = separator '':'' then
        if length tokens > 1 then
          (case tokens ! 1 of
             separator s \<Rightarrow> Inl (ErrParseFailed (PortSeparator s))
           | placeholder i \<Rightarrow>
               Inr (pathStep, drop 2 tokens, result\<lparr>port := Some (ParamPart i)\<rparr>, qk)
           | static s \<Rightarrow>
               (case Atoi s of
                  None \<Rightarrow> Inl (ErrParseFailed (PortNotANumber s))
                | Some pn \<Rightarrow>
                    if pn < 1 \<or> pn > 65535 then Inl (ErrParseFailed (PortOutOfRange pn))
                    else Inr (pathStep, drop 2 tokens,
                              result\<lparr>port := Some (StaticPart (word_of_int pn))\<rparr>, qk)))
        else Inl (ErrParseFailed PortMissing)
      else Inr (pathStep, tokens, result, qk))"

definition pathCase :: "token list \<Rightarrow> parseResult \<Rightarrow> string \<Rightarrow> failure + parse_state" where
  "pathCase tokens result qk =
     (case hd tokens of
        placeholder i \<Rightarrow> Inl (ErrParseFailed PathPlaceholder)
      | static s \<Rightarrow>
          if (protocol result \<noteq> None \<or> hostname result \<noteq> None) \<and> paths result = []
          then Inl (ErrParseFailed (PathText s))
          else Inr (pathStep, drop 1 tokens, appendPath s result, qk)
      | separator s \<Rightarrow>
          if invalidSeparator pathStep s then Inl (ErrParseFailed (PathSeparator s))
          else if s \<noteq> ''/'' then Inr (queryStep, tokens, result, qk)
          else if length tokens > 1 then
            (case tokens ! 1 of
               separator s' \<Rightarrow> Inr (queryStep, drop 1 tokens, appendPath ''/'' result, qk)
             | placeholder i \<Rightarrow>
                 (let r = appendPath ''/'' result
                  in Inr (pathStep, drop 2 tokens, r\<lparr>paths := paths r @ [ParamPart i]\<rparr>, qk))
             | static t \<Rightarrow> Inr (pathStep, drop 2 tokens, appendPath (''/'' @ t) result, qk))
          else Inr (invalidStep, drop 1 tokens, appendPath ''/'' result, qk))"

definition queryCase :: "token list \<Rightarrow> parseResult \<Rightarrow> string \<Rightarrow> failure + parse_state" where
  "queryCase tokens result qk =
     (case hd tokens of
        separator s \<Rightarrow>
          if invalidSeparator queryStep s then Inl (ErrParseFailed (QuerySeparator s))
          else if s = ''?'' then Inr (queryKeyStep, drop 1 tokens, result, qk)
          else if s = ''#'' then Inr (fragmentStep, drop 1 tokens, result, qk)
          else Inr (queryStep, drop 1 tokens, result, qk)
      | placeholder i \<Rightarrow> Inl (ErrParseFailed (QueryPlaceholder i))
      | static s \<Rightarrow> Inl (ErrParseFailed (QueryText s)))"

definition emptyValue :: "string \<Rightarrow> queryPart" where
  "emptyValue k = \<lparr>key = k, qvalue = StaticPart []\<rparr>"

definition addQuery :: "queryPart \<Rightarrow> parseResult \<Rightarrow> parseResult" where
  "addQuery q result = result\<lparr>queries := queries result @ [q]\<rparr>"

definition queryKeyCase :: "token list \<Rightarrow> parseResult \<Rightarrow> string \<Rightarrow> failure + parse_state" where
  "queryKeyCase tokens result qk =
     (case hd tokens of
        separator s \<Rightarrow> Inl (ErrParseFailed (QueryKeySeparator s))
      | placeholder i \<Rightarrow>
          (let set_entry = addQuery \<lparr>key = [], qvalue = ParamPart i\<rparr> in
           if length tokens > 1 then
             (case tokens ! 1 of
                static t \<Rightarrow> Inl (ErrParseFailed (QuerySetText t))
              | separator s \<Rightarrow>
                  if invalidSeparator queryValueStep s then Inl (ErrParseFailed (QuerySetSeparator s))
                  else if s = ''#'' then Inr (fragmentStep, drop 2 tokens, set_entry result, qk)
                  else Inr (queryKeyStep, drop 2 tokens, set_entry result, qk)
              | placeholder j \<Rightarrow> Inr (queryKeyStep, drop 2 tokens, set_entry result, qk))
           else Inr (invalidStep, drop 1 tokens, set_entry result, qk))
      | static k \<Rightarrow>
          if length tokens > 1 then
            (case tokens ! 1 of
               separator s \<Rightarrow>
                 if invalidSeparator queryKeyStep s then Inl (ErrParseFailed (QueryKeyFollower s))
                 else if s = ''='' then Inr (queryValueStep, drop 2 tokens, result, k)
                 else if s = ''#'' then
                   Inr (fragmentStep, drop 2 tokens, addQuery (emptyValue k) result, qk)
                 else if s = ''&'' then
                   Inr (queryKeyStep, drop 2 tokens, addQuery (emptyValue k) result, qk)
                 else Inr (queryKeyStep, drop 2 tokens, result, qk)
             | _ \<Rightarrow> Inr (queryKeyStep, tokens, result, qk))
          else Inr (queryKeyStep, tokens, addQuery (emptyValue k) result, qk))"

definition queryValueCase :: "token list \<Rightarrow> parseResult \<Rightarrow> string \<Rightarrow> failure + parse_state" where
  "queryValueCase tokens result qk =
     (case hd tokens of
        separator s \<Rightarrow> Inl (ErrParseFailed (QueryValueSeparator s))
      | qv \<Rightarrow>
          (let r = addQuery \<lparr>key = qk,
                     qvalue = (case qv of placeholder i \<Rightarrow> ParamPart i | _ \<Rightarrow> StaticPart (tok_text qv))\<rparr>
                     result in
           if length tokens > 1 then
             (case tokens ! 1 of
                placeholder j \<Rightarrow> Inl (ErrParseFailed (QueryValuePlaceholder j))
              | static t \<Rightarrow> Inl (ErrParseFailed (QueryValueText t))
              | separator s \<Rightarrow>
                  if invalidSeparator queryValueStep s then Inl (ErrParseFailed (QueryValueFollower s))
                  else if s = ''&'' then Inr (queryKeyStep, drop 2 tokens, r, qk)
                  else if s = ''#'' then Inr (fragmentStep, drop 2 tokens, r, qk)
                  else Inr (queryValueStep, drop 2 tokens, r, qk))
           else Inr (queryValueStep, drop 1 tokens, r, qk)))"

definition fragmentCase :: "token list \<Rightarrow> parseResult \<Rightarrow> string \<Rightarrow> failure + parse_state" where
  "fragmentCase tokens result qk =
     (case hd tokens of
        separator s \<Rightarrow> Inl (ErrParseFailed (FragmentSeparator s))
      | static s \<Rightarrow>
          Inr (invalidStep, drop 1 tokens, result\<lparr>fragment := Some (StaticPart s)\<rparr>, qk)
      | placeholder i \<Rightarrow>
          Inr (invalidStep, drop 1 tokens, result\<lparr>fragment := Some (ParamPart i)\<rparr>, qk))"

fun parse_step :: "stepType \<Rightarrow> token list \<Rightarrow> parseResult \<Rightarrow> string \<Rightarrow> failure + parse_state" where
  "parse_step protocolStep tokens result qk = protocolCase tokens result qk"
| "parse_step hostnameStep tokens result qk = hostnameCase tokens result qk"
| "parse_step portStep tokens result qk = portCase tokens result qk"
| "parse_step pathStep tokens result qk = pathCase tokens result qk"
| "parse_step queryStep tokens result qk = queryCase tokens result qk"
| "parse_step queryKeyStep tokens result qk = queryKeyCase tokens result qk"
| "parse_step queryValueStep tokens result qk = queryValueCase tokens result qk"
| "parse_step fragmentStep tokens result qk = fragmentCase tokens result qk"
| "parse_step invalidStep tokens result qk = Inl (ErrParseFailed ExtraToken)"

text \<open>
  The loop \<^verbatim>\<open>for len(tokens) > 0\<close> has no bound of its own, and some cases leave
  the tokens and the step as they are (a template of one token in the protocol step, a
  query key that ends the template), so the loop need not end: \<^term>\<open>None\<close> is the loop
  that never returns.
\<close>

partial_function (option) parse_loop :: "stepType \<Rightarrow> token list \<Rightarrow> parseResult \<Rightarrow> string
    \<Rightarrow> (failure + parseResult) option" where
  "parse_loop step tokens result qk =
     (if tokens = [] then Some (Inr result)
      else case parse_step step tokens result qk of
             Inl e \<Rightarrow> Some (Inl e)
           | Inr (step', tokens', result', qk') \<Rightarrow> parse_loop step' tokens' result' qk')"

declare parse_loop.simps [code]

definition parse :: "string \<Rightarrow> (failure + parseResult) option" where
  "parse pattern = parse_loop protocolStep (tokenize pattern [] 0) empty_parseResult []"

subsection \<open>net/url: query values and escaping\<close>

text \<open>
  The formatter hands its result to Go's \<^verbatim>\<open>net/url\<close>. \<^verbatim>\<open>url.Values\<close> is a
  map from a key to the list of its values, here an association list with one entry per
  key: \<^verbatim>\<open>Add\<close> appends a value to the key's list, \<^verbatim>\<open>Set\<close> replaces the
  list by one value, and \<^verbatim>\<open>Encode\<close> prints \<^verbatim>\<open>key=value\<close> pairs joined by
  \<^verbatim>\<open>&\<close>, the keys sorted as byte strings and the values of one key in the order
  of its list.
\<close>

type_synonym Values = "(string \<times> string list) list"

definition Get_all :: "Values \<Rightarrow> string \<Rightarrow> string list" where
  "Get_all q k = (case map_of q k of None \<Rightarrow> [] | Some vs \<Rightarrow> vs)"

definition Add :: "string \<Rightarrow> string \<Rightarrow> Values \<Rightarrow> Values" where
  "Add k v q = AList.update k (Get_all q k @ [v]) q"

definition Set_value :: "string \<Rightarrow> string \<Rightarrow> Values \<Rightarrow> Values" where
  "Set_value k v q = AList.update k [v] q"

datatype encoding =
  encodePath | encodePathSegment | encodeHost | encodeZone | encodeUserPassword |
  encodeQueryComponent | encodeFragment

definition is_alnum :: "char \<Rightarrow> bool" where
  "is_alnum c =
     (let n = (of_char c :: nat) in
      (of_char CHR ''a'' \<le> n \<and> n \<le> of_char CHR ''z'') \<or>
      (of_char CHR ''A'' \<le> n \<and> n \<le> of_char CHR ''Z'') \<or>
      (of_char CHR ''0'' \<le> n \<and> n \<le> of_char CHR ''9''))"

definition shouldEscape :: "char \<Rightarrow> encoding \<Rightarrow> bool" where
  "shouldEscape c mode =
     (if is_alnum c then False
      else if (mode = encodeHost \<or> mode = encodeZone) \<and>
              c \<in> set (''!$&'' @ [CHR 0x27] @ ''()*+,;=:[]<>'' @ [CHR 0x22]) then False
      else if c \<in> set ''-_.~'' then False
      else if c \<in> set ''$&+,/:;=?@'' \<and> mode = encodePath then c = CHR ''?''
      else if c \<in> set ''$&+,/:;=?@'' \<and> mode = encodePathSegment then c \<in> set ''/;,?''
      else if c \<in> set ''$&+,/:;=?@'' \<and> mode = encodeUserPassword then c \<in> set ''@/?:''
      else if c \<in> set ''$&+,/:;=?@'' \<and> mode = encodeQueryComponent then True
      else if c \<in> set ''$&+,/:;=?@'' \<and> mode = encodeFragment then False
      else if mode = encodeFragment \<and> c \<in> set ''!()*'' then False
      else True)"

definition upperhex :: "nat \<Rightarrow> char" where
  "upperhex n = ''0123456789ABCDEF'' ! n"

definition escape_byte :: "encoding \<Rightarrow> char \<Rightarrow> string" where
  "escape_byte mode c =
     (if c = CHR '' '' \<and> mode = encodeQueryComponent then ''+''
      else if shouldEscape c mode then
        [CHR ''%'', upperhex (of_char c div 16), upperhex (of_char c mod 16)]
      else [c])"

definition escape :: "string \<Rightarrow> encoding \<Rightarrow> string" where
  "escape s mode = concat (map (escape_byte mode) s)"

definition QueryEscape :: "string \<Rightarrow> string" where
  "QueryEscape s = escape s encodeQueryComponent"

fun join_amp :: "string list \<Rightarrow> string" where
  "join_amp [] = []"
| "join_amp [x] = x"
| "join_amp (x # y # ys) = x @ ''&'' @ join_amp (y # ys)"

definition encode_key :: "Values \<Rightarrow> string \<Rightarrow> string list" where
  "encode_key q k = map (\<lambda>v. QueryEscape k @ ''='' @ QueryEscape v) (Get_all q k)"

definition Encode :: "Values \<Rightarrow> string" where
  "Encode q = join_amp (concat (map (encode_key q) (sort (map fst q))))"

subsection \<open>net/url: printing a URL\<close>

text \<open>
  The formatter fills the fields \<^verbatim>\<open>Scheme\<close>, \<^verbatim>\<open>User\<close>, \<^verbatim>\<open>Host\<close>,
  \<^verbatim>\<open>Path\<close>, \<^verbatim>\<open>RawQuery\<close> and \<^verbatim>\<open>Fragment\<close> of a \<^verbatim>\<open>url.URL\<close> and leaves
  the others at their zero values; \<^verbatim>\<open>URL.String\<close> is given for such a record.
\<close>

record URL =
  Scheme :: string
  User :: "(string \<times> string) option"
  Host :: string
  Path :: string
  RawQuery :: string
  Fragment :: string

definition Userinfo_String :: "string \<times> string \<Rightarrow> string" where
  "Userinfo_String up =
     escape (fst up) encodeUserPassword @ '':'' @ escape (snd up) encodeUserPassword"

definition EscapedPath :: "URL \<Rightarrow> string" where
  "EscapedPath u = (if Path u = ''*'' then ''*'' else escape (Path u) encodePath)"

definition EscapedFragment :: "URL \<Rightarrow> string" where
  "EscapedFragment u = escape (Fragment u) encodeFragment"

definition URL_String :: "URL \<Rightarrow> string" where
  "URL_String u =
     (let scheme = (if Scheme u \<noteq> [] then Scheme u @ '':'' else []);
          authority =
            (if Scheme u \<noteq> [] \<or> Host u \<noteq> [] \<or> User u \<noteq> None then
               (if Host u \<noteq> [] \<or> Path u \<noteq> [] \<or> User u \<noteq> None then ''//'' else []) @
               (case User u of None \<Rightarrow> [] | Some up \<Rightarrow> Userinfo_String up @ ''@'') @
               (if Host u \<noteq> [] then escape (Host u) encodeHost else [])
             else []);
          path = EscapedPath u;
          buf = scheme @ authority @
                (if path \<noteq> [] \<and> hd path \<noteq> CHR ''/'' \<and> Host u \<noteq> [] then ''/'' else []);
          buf' = (if buf = [] \<and> CHR '':'' \<in> set (takeWhile (\<lambda>c. c \<noteq> CHR ''/'') path)
                  then ''./'' else buf)
      in buf' @ path @
         (if RawQuery u \<noteq> [] then ''?'' @ RawQuery u else []) @
         (if Fragment u \<noteq> [] then ''#'' @ EscapedFragment u else []))"

subsection \<open>Arguments\<close>

text \<open>
  An argument is a Go value of type \<^verbatim>\<open>any\<close>. The formatter tells apart a string, a
  pointer to a string (which may be a nil pointer), an int, a pointer to an int, the nil
  interface, a value whose kind is slice (with its elements), a \<^verbatim>\<open>url.Values\<close>
  (the entries of the map in the order the run time iterates over them) and any
  other value.
\<close>

datatype arg =
    AString string
  | AStringPtr "string option"
  | AInt int
  | AIntPtr "int option"
  | ANil
  | ASlice "arg list"
  | AValues "(string \<times> string list) list"
  | AOther

definition arg_at :: "arg list \<Rightarrow> nat \<Rightarrow> failure + arg" where
  "arg_at args i = (if i < length args then Inr (args ! i) else Inl (Panic IndexOutOfRange))"

subsection \<open>The override options and \<^verbatim>\<open>overwrite\<close>\<close>

record Opt =
  Hostname :: string
  Port :: "16 word"
  Protocol :: string
  Username :: string
  Password :: string

text \<open>
  \<^verbatim>\<open>hostPattern\<close> is \<^verbatim>\<open>^(?P<protocol>\w+:\/\/)?(?P<hostname>[^:]+)(?P<port>:\d+)?\<close>.
  \<^verbatim>\<open>FindStringSubmatch\<close> prefers a match that has the protocol group; the group
  needs the longest run of word characters at the start to be followed by
  \<^verbatim>\<open>://\<close> and then by a character other than a colon. Otherwise the host name is
  read from the start. The host name runs up to the first colon, and the port group is
  that colon with the digits after it, when there is one. The result is the three groups,
  an empty string for a group that took no part, or nothing when the host name would be
  empty.
\<close>

definition is_word :: "char \<Rightarrow> bool" where
  "is_word c = (is_alnum c \<or> c = CHR ''_'')"

definition not_colon :: "char \<Rightarrow> bool" where
  "not_colon c = (c \<noteq> CHR '':'')"

definition port_group :: "string \<Rightarrow> string" where
  "port_group r =
     (case r of
        [] \<Rightarrow> []
      | c # ds \<Rightarrow> if c = CHR '':'' \<and> takeWhile is_digit ds \<noteq> [] then c # takeWhile is_digit ds else [])"

definition hostPattern :: "string \<Rightarrow> (string \<times> string \<times> string) option" where
  "hostPattern s =
     (let w = takeWhile is_word s; r = dropWhile is_word s in
      if w \<noteq> [] \<and> take 3 r = ''://'' \<and> takeWhile not_colon (drop 3 r) \<noteq> [] then
        Some (w @ ''://'', takeWhile not_colon (drop 3 r), port_group (dropWhile not_colon (drop 3 r)))
      else if takeWhile not_colon s \<noteq> [] then
        Some ([], takeWhile not_colon s, port_group (dropWhile not_colon s))
      else None)"

text \<open>
  \<^verbatim>\<open>overwrite\<close> copies the six slots of the source into a new \<^verbatim>\<open>parseResult\<close>
  (the credentials start empty) and then replaces slots from the options. The match is
  indexed without a check, so a host name option that the pattern does not match is an
  index out of range.
\<close>

definition overwrite_hostname :: "string \<Rightarrow> parseResult \<Rightarrow> failure + parseResult" where
  "overwrite_hostname h result =
     (if h = [] then Inr result
      else case hostPattern h of
             None \<Rightarrow> Inl (Panic IndexOutOfRange)
           | Some (m1, m2, m3) \<Rightarrow>
               (let r1 = (if m1 \<noteq> [] then result\<lparr>protocol := Some (StaticPart (take (length m1 - 3) m1))\<rparr>
                          else result);
                    r2 = (if m2 \<noteq> [] then r1\<lparr>hostname := Some (StaticPart m2)\<rparr> else r1)
                in if m3 \<noteq> [] then
                     (case ParseUint16 (tl m3) of
                        None \<Rightarrow> Inl (ErrParseFailed (OverridePort m3))
                      | Some p \<Rightarrow> Inr (r2\<lparr>port := Some (StaticPart (of_nat p))\<rparr>))
                   else Inr r2))"

definition overwrite :: "parseResult \<Rightarrow> Opt \<Rightarrow> failure + parseResult" where
  "overwrite src opt =
     (let result = \<lparr>protocol = protocol src, hostname = hostname src, port = port src,
                    paths = paths src, queries = queries src, fragment = fragment src,
                    username = [], password = []\<rparr>
      in case overwrite_hostname (Hostname opt) result of
           Inl e \<Rightarrow> Inl e
         | Inr r3 \<Rightarrow>
             (let r4 = (if Protocol opt \<noteq> [] then r3\<lparr>protocol := Some (StaticPart (Protocol opt))\<rparr>
                        else r3);
                  r5 = (if Port opt \<noteq> 0 then r4\<lparr>port := Some (StaticPart (Port opt))\<rparr> else r4)
              in if Username opt \<noteq> [] \<and> Password opt \<noteq> [] then
                   Inr (r5\<lparr>username := Username opt, password := Password opt\<rparr>)
                 else if Username opt \<noteq> [] \<or> Password opt \<noteq> [] then
                   Inl (ErrParseFailed OverrideCredentials)
                 else Inr r5))"

subsection \<open>Binding the arguments\<close>

text \<open>
  The body of the formatter after \<^verbatim>\<open>overwrite\<close>, slot by slot in the order of the
  source. A parametric slot reads \<^verbatim>\<open>args[index]\<close> without a check; a pointer is
  dereferenced without a check.
\<close>

definition bind_string :: "format_site \<Rightarrow> arg \<Rightarrow> failure + string option" where
  "bind_string site a =
     (case a of
        AString v \<Rightarrow> Inr (Some v)
      | AStringPtr None \<Rightarrow> Inl (Panic NilDereference)
      | AStringPtr (Some v) \<Rightarrow> Inr (Some v)
      | ANil \<Rightarrow> Inr None
      | _ \<Rightarrow> Inl (ErrFormatFailed site))"

definition bindScheme :: "parseResult \<Rightarrow> arg list \<Rightarrow> failure + string" where
  "bindScheme t args =
     (case protocol t of
        None \<Rightarrow> Inr []
      | Some (StaticPart v) \<Rightarrow> Inr v
      | Some (ParamPart i) \<Rightarrow>
          (case arg_at args i of
             Inl e \<Rightarrow> Inl e
           | Inr a \<Rightarrow>
               (case bind_string ProtocolValue a of
                  Inl e \<Rightarrow> Inl e
                | Inr None \<Rightarrow> Inr []
                | Inr (Some v) \<Rightarrow> Inr v)))"

text \<open>The host step returns the scheme as well: a nil host name clears it.\<close>

definition bindHost :: "parseResult \<Rightarrow> arg list \<Rightarrow> string \<Rightarrow> failure + string \<times> string" where
  "bindHost t args scheme =
     (case hostname t of
        None \<Rightarrow> Inr (scheme, [])
      | Some (StaticPart v) \<Rightarrow> Inr (scheme, v)
      | Some (ParamPart i) \<Rightarrow>
          (case arg_at args i of
             Inl e \<Rightarrow> Inl e
           | Inr a \<Rightarrow>
               (case bind_string HostnameValue a of
                  Inl e \<Rightarrow> Inl e
                | Inr None \<Rightarrow> Inr ([], [])
                | Inr (Some v) \<Rightarrow> Inr (scheme, v))))"

definition bindPort :: "parseResult \<Rightarrow> arg list \<Rightarrow> string \<Rightarrow> failure + string" where
  "bindPort t args host =
     (if port t \<noteq> None \<and> host \<noteq> [] then
        (case the (port t) of
           StaticPart v \<Rightarrow> Inr (host @ '':'' @ Itoa (uint v))
         | ParamPart i \<Rightarrow>
             (case arg_at args i of
                Inl e \<Rightarrow> Inl e
              | Inr a \<Rightarrow>
                  (case a of
                     AInt v \<Rightarrow> Inr (host @ '':'' @ Itoa v)
                   | AIntPtr None \<Rightarrow> Inl (Panic NilDereference)
                   | AIntPtr (Some v) \<Rightarrow> Inr (host @ '':'' @ Itoa v)
                   | ANil \<Rightarrow> Inr host
                   | _ \<Rightarrow> Inl (ErrFormatFailed PortValue))))
      else Inr host)"

text \<open>
  A scalar element of a slice: its text, nothing for nil and for an element of another
  type (the inner \<^verbatim>\<open>switch\<close> has no default case).
\<close>

definition scalar_text :: "arg \<Rightarrow> failure + string option" where
  "scalar_text a =
     (case a of
        AString v \<Rightarrow> Inr (Some v)
      | AStringPtr None \<Rightarrow> Inl (Panic NilDereference)
      | AStringPtr (Some v) \<Rightarrow> Inr (Some v)
      | AInt v \<Rightarrow> Inr (Some (Itoa v))
      | AIntPtr None \<Rightarrow> Inl (Panic NilDereference)
      | AIntPtr (Some v) \<Rightarrow> Inr (Some (Itoa v))
      | _ \<Rightarrow> Inr None)"

fun pathSlice :: "arg list \<Rightarrow> string list \<Rightarrow> failure + string list" where
  "pathSlice [] ps = Inr ps"
| "pathSlice (e # es) ps =
     (case scalar_text e of
        Inl f \<Rightarrow> Inl f
      | Inr None \<Rightarrow> pathSlice es ps
      | Inr (Some v) \<Rightarrow> pathSlice es (ps @ [''/'' @ v]))"

definition pathArg :: "arg \<Rightarrow> string list \<Rightarrow> failure + string list" where
  "pathArg a ps =
     (case a of
        ASlice es \<Rightarrow> pathSlice es ps
      | _ \<Rightarrow>
        (case scalar_text a of
           Inl f \<Rightarrow> Inl f
         | Inr None \<Rightarrow> Inr ps
         | Inr (Some v) \<Rightarrow> Inr (ps @ [v])))"

fun bindPaths :: "string part list \<Rightarrow> arg list \<Rightarrow> string list \<Rightarrow> failure + string list" where
  "bindPaths [] args ps = Inr ps"
| "bindPaths (StaticPart v # rest) args ps = bindPaths rest args (ps @ [v])"
| "bindPaths (ParamPart i # rest) args ps =
     (case arg_at args i of
        Inl e \<Rightarrow> Inl e
      | Inr a \<Rightarrow>
          (case pathArg a ps of
             Inl e \<Rightarrow> Inl e
           | Inr ps' \<Rightarrow> bindPaths rest args ps'))"

text \<open>
  \<^verbatim>\<open>updateQuery\<close>: a scalar is added to the key, nil does nothing, and of a slice
  the element at index 0 is \<^verbatim>\<open>Set\<close> and every later one is added.
\<close>

fun updateSlice :: "string \<Rightarrow> arg list \<Rightarrow> nat \<Rightarrow> Values \<Rightarrow> failure + Values" where
  "updateSlice k [] i q = Inr q"
| "updateSlice k (e # es) i q =
     (case scalar_text e of
        Inl f \<Rightarrow> Inl f
      | Inr None \<Rightarrow> updateSlice k es (Suc i) q
      | Inr (Some v) \<Rightarrow>
          updateSlice k es (Suc i) (if i = 0 then Set_value k v q else Add k v q))"

definition updateQuery :: "string \<Rightarrow> arg \<Rightarrow> Values \<Rightarrow> failure + Values" where
  "updateQuery k a q =
     (case a of
        ASlice es \<Rightarrow> updateSlice k es 0 q
      | AValues vs \<Rightarrow> Inl (ErrFormatFailed QueryValue)
      | AOther \<Rightarrow> Inl (ErrFormatFailed QueryValue)
      | _ \<Rightarrow>
        (case scalar_text a of
           Inl f \<Rightarrow> Inl f
         | Inr None \<Rightarrow> Inr q
         | Inr (Some v) \<Rightarrow> Inr (Add k v q)))"

fun updateSet :: "(string \<times> string list) list \<Rightarrow> Values \<Rightarrow> failure + Values" where
  "updateSet [] q = Inr q"
| "updateSet ((k, vs) # rest) q =
     (case updateQuery k (ASlice (map AString vs)) q of
        Inl e \<Rightarrow> Inl e
      | Inr q' \<Rightarrow> updateSet rest q')"

definition bindQuery :: "queryPart \<Rightarrow> arg list \<Rightarrow> Values \<Rightarrow> failure + Values" where
  "bindQuery qp args q =
     (case qvalue qp of
        StaticPart v \<Rightarrow> Inr (Add (key qp) v q)
      | ParamPart i \<Rightarrow>
          (case arg_at args i of
             Inl e \<Rightarrow> Inl e
           | Inr a \<Rightarrow>
               if key qp \<noteq> [] then updateQuery (key qp) a q
               else (case a of
                       AValues vs \<Rightarrow> updateSet vs q
                     | _ \<Rightarrow> Inl (ErrFormatFailed QuerySetValue))))"

fun bindQueries :: "queryPart list \<Rightarrow> arg list \<Rightarrow> Values \<Rightarrow> failure + Values" where
  "bindQueries [] args q = Inr q"
| "bindQueries (qp # rest) args q =
     (case bindQuery qp args q of
        Inl e \<Rightarrow> Inl e
      | Inr q' \<Rightarrow> bindQueries rest args q')"

definition bindFragment :: "parseResult \<Rightarrow> arg list \<Rightarrow> failure + string" where
  "bindFragment t args =
     (case fragment t of
        None \<Rightarrow> Inr []
      | Some (StaticPart v) \<Rightarrow> Inr v
      | Some (ParamPart i) \<Rightarrow>
          (case arg_at args i of
             Inl e \<Rightarrow> Inl e
           | Inr a \<Rightarrow>
               (case bind_string FragmentValue a of
                  Inl e \<Rightarrow> Inl e
                | Inr None \<Rightarrow> Inr []
                | Inr (Some v) \<Rightarrow> Inr v)))"

text \<open>The collected path strings are joined; a slash is dropped where two would meet.\<close>

definition joinPath :: "string \<Rightarrow> string \<Rightarrow> string" where
  "joinPath path p =
     (if path \<noteq> [] \<and> last path = CHR ''/'' \<and> p \<noteq> [] \<and> hd p = CHR ''/'' then path @ tl p
      else path @ p)"

definition substitute :: "parseResult \<Rightarrow> arg list \<Rightarrow> failure + URL" where
  "substitute t args =
     (case bindScheme t args of
        Inl e \<Rightarrow> Inl e
      | Inr scheme0 \<Rightarrow>
     (case bindHost t args scheme0 of
        Inl e \<Rightarrow> Inl e
      | Inr (scheme, host0) \<Rightarrow>
     (case bindPort t args host0 of
        Inl e \<Rightarrow> Inl e
      | Inr host \<Rightarrow>
     (case bindPaths (paths t) args [] of
        Inl e \<Rightarrow> Inl e
      | Inr ps \<Rightarrow>
     (case bindQueries (queries t) args [] of
        Inl e \<Rightarrow> Inl e
      | Inr query \<Rightarrow>
     (case bindFragment t args of
        Inl e \<Rightarrow> Inl e
      | Inr frag \<Rightarrow>
          Inr \<lparr>Scheme = scheme,
               User = (if username t \<noteq> [] then Some (username t, password t) else None),
               Host = host,
               Path = foldl joinPath [] ps,
               RawQuery = Encode query,
               Fragment = frag\<rparr>))))))"

definition format_template :: "parseResult \<Rightarrow> arg list \<Rightarrow> failure + string" where
  "format_template t args =
     (case substitute t args of Inl e \<Rightarrow> Inl e | Inr u \<Rightarrow> Inr (URL_String u))"

subsection \<open>The template cache and the formatter\<close>

text \<open>
  The package keeps every parsed template in a process-wide cache keyed by the template
  string; the cache holds pointers. The store is the list of the \<^verbatim>\<open>parseResult\<close>
  objects allocated so far, an address being an index into it, together with the cache.
  \<^verbatim>\<open>overwrite\<close> allocates its result; when it fails it returns nil and what it
  allocated is unreachable, so the store is left as it was. The new object shares the
  parts and the slices of the source; neither \<^verbatim>\<open>overwrite\<close> nor the formatter
  writes through them (every assignment replaces a field of the new object), so they
  are values here.
\<close>

record store =
  objects :: "parseResult list"
  cache :: "string \<Rightarrow> nat option"

definition empty_store :: store where
  "empty_store = \<lparr>objects = [], cache = (\<lambda>f. None)\<rparr>"

definition overwrite_ptr :: "nat \<Rightarrow> Opt \<Rightarrow> store \<Rightarrow> (failure + nat) \<times> store" where
  "overwrite_ptr src opt st =
     (case overwrite (objects st ! src) opt of
        Inl e \<Rightarrow> (Inl e, st)
      | Inr r \<Rightarrow> (Inr (length (objects st)), st\<lparr>objects := objects st @ [r]\<rparr>))"

definition format_ptr :: "Opt \<Rightarrow> nat \<Rightarrow> arg list \<Rightarrow> store \<Rightarrow> (failure + string) \<times> store" where
  "format_ptr opt ot args st =
     (case overwrite_ptr ot opt st of
        (Inl e, st') \<Rightarrow> (Inl e, st')
      | (Inr t, st') \<Rightarrow> (format_template (objects st' ! t) args, st'))"

text \<open>
  The function returned by \<^verbatim>\<open>TryCustomFormatter(o)\<close>, applied to a template, the
  arguments and the store. \<^term>\<open>None\<close>: the parser does not return.
\<close>

definition TryCustomFormatter ::
    "Opt \<Rightarrow> string \<Rightarrow> arg list \<Rightarrow> store \<Rightarrow> ((failure + string) \<times> store) option" where
  "TryCustomFormatter opt format args st =
     (case cache st format of
        Some ot \<Rightarrow> Some (format_ptr opt ot args st)
      | None \<Rightarrow>
          (case parse format of
             None \<Rightarrow> None
           | Some (Inl e) \<Rightarrow> Some (Inl e, st)
           | Some (Inr r) \<Rightarrow>
               (let ot = length (objects st);
                    st' = st\<lparr>objects := objects st @ [r], cache := (cache st)(format := Some ot)\<rparr>
                in Some (format_ptr opt ot args st'))))"

definition no_opt :: Opt where
  "no_opt = \<lparr>Hostname = [], Port = 0, Protocol = [], Username = [], Password = []\<rparr>"

text \<open>\<^verbatim>\<open>TryUrlf\<close> is the formatter of the empty options; here on a fresh store.\<close>

definition TryUrlf :: "string \<Rightarrow> arg list \<Rightarrow> (failure + string) option" where
  "TryUrlf format args = map_option fst (TryCustomFormatter no_opt format args empty_store)"

subsection \<open>Notions used by the properties\<close>




text \<open>\<^verbatim>\<open>strings.Split(s, "/")\<close>, and strings in which no two slashes are adjacent.\<close>

fun split_slash :: "string \<Rightarrow> string list" where
  "split_slash [] = [[]]"
| "split_slash (c # cs) =
     (if c = CHR ''/'' then [] # split_slash cs
      else (c # hd (split_slash cs)) # tl (split_slash cs))"

fun no_double_slash :: "string \<Rightarrow> bool" where
  "no_double_slash (a # b # r) = (\<not> (a = CHR ''/'' \<and> b = CHR ''/'') \<and> no_double_slash (b # r))"
| "no_double_slash _ = True"

text \<open>
  What a list element contributes, stated on its own: the text of a string, of an int
  and of what a non-nil pointer points to; nothing for any other element. An element
  that is a nil pointer is set apart.
\<close>

fun element_text :: "arg \<Rightarrow> string option" where
  "element_text (AString v) = Some v"
| "element_text (AStringPtr p) = p"
| "element_text (AInt n) = Some (Itoa n)"
| "element_text (AIntPtr p) = map_option Itoa p"
| "element_text _ = None"

fun element_texts :: "arg list \<Rightarrow> string list" where
  "element_texts [] = []"
| "element_texts (e # es) =
     (case element_text e of None \<Rightarrow> element_texts es | Some v \<Rightarrow> v # element_texts es)"

fun no_nil_pointer :: "arg \<Rightarrow> bool" where
  "no_nil_pointer (AStringPtr None) = False"
| "no_nil_pointer (AIntPtr None) = False"
| "no_nil_pointer _ = True"

text \<open>The element at index 0 of a list has a text.\<close>

definition first_is_text :: "arg list \<Rightarrow> bool" where
  "first_is_text es = (case es of [] \<Rightarrow> False | e # _ \<Rightarrow> element_text e \<noteq> None)"

text \<open>The values of static query entries, and the pairs of a key printed for its values.\<close>

definition static_values :: "queryPart list \<Rightarrow> string list" where
  "static_values qs = map (\<lambda>qp. case qvalue qp of StaticPart v \<Rightarrow> v | ParamPart i \<Rightarrow> []) qs"

definition pairs :: "string \<Rightarrow> string list \<Rightarrow> string" where
  "pairs k vs = join_amp (map (\<lambda>v. QueryEscape k @ ''='' @ QueryEscape v) vs)"

text \<open>Segments joined by single slashes.\<close>

fun join_slash :: "string list \<Rightarrow> string" where
  "join_slash [] = []"
| "join_slash [x] = x"
| "join_slash (x # y # ys) = x @ ''/'' @ join_slash (y # ys)"

text \<open>A static query entry for the key.\<close>

definition static_for :: "string \<Rightarrow> queryPart \<Rightarrow> bool" where
  "static_for k qp = (key qp = k \<and> (case qvalue qp of StaticPart v \<Rightarrow> True | ParamPart i \<Rightarrow> False))"

text \<open>The host name of a template resolves to the empty string under the arguments.\<close>

definition host_resolves_empty :: "parseResult \<Rightarrow> arg list \<Rightarrow> bool" where
  "host_resolves_empty t args =
     (case hostname t of
        None \<Rightarrow> True
      | Some (StaticPart v) \<Rightarrow> v = []
      | Some (ParamPart i) \<Rightarrow>
          i < length args \<and> args ! i \<in> {ANil, AString [], AStringPtr (Some [])})"

text \<open>A slot other than a path segment refers to the argument index.\<close>

definition refers :: "parseResult \<Rightarrow> nat \<Rightarrow> bool" where
  "refers t i =
     (protocol t = Some (ParamPart i) \<or> hostname t = Some (ParamPart i) \<or>
      port t = Some (ParamPart i) \<or> fragment t = Some (ParamPart i) \<or>
      ParamPart i \<in> qvalue ` set (queries t))"

text \<open>The scheme prefix of an authority string: nothing, or a scheme name and \<^verbatim>\<open>://\<close>.\<close>

definition scheme_prefix :: "string \<Rightarrow> string" where
  "scheme_prefix w = (if w = [] then [] else w @ ''://'')"

section \<open>Evaluation\<close>

lemmas parse_eval = parse_def parse_loop.simps protocolCase_def hostnameCase_def portCase_def
  pathCase_def queryCase_def queryKeyCase_def queryValueCase_def fragmentCase_def appendPath_def
  addQuery_def emptyValue_def empty_parseResult_def flush_def single_separator_def Atoi_def

lemmas digit_eval = all_digits_def is_digit_def digits_val_def digit_val_def is_alnum_def

lemmas overwrite_eval = overwrite_def overwrite_hostname_def hostPattern_def is_word_def
  not_colon_def port_group_def ParseUint16_def

lemmas bind_eval = substitute_def format_template_def bindScheme_def bindHost_def bindPort_def
  bind_string_def arg_at_def pathArg_def scalar_text_def updateQuery_def bindQuery_def
  bindFragment_def joinPath_def Itoa_def nat_digits.simps digit_char_def

lemmas url_eval = URL_String_def EscapedPath_def EscapedFragment_def Userinfo_String_def
  escape_def escape_byte_def shouldEscape_def upperhex_def Encode_def encode_key_def
  QueryEscape_def Get_all_def Add_def Set_value_def less_char_def less_eq_char_def

lemmas formatter_eval = TryUrlf_def TryCustomFormatter_def format_ptr_def overwrite_ptr_def
  empty_store_def no_opt_def

section \<open>Missing arguments\<close>

text \<open>
  C1. A parametric slot whose index has no argument should make the formatter return an
  error. The formatter indexes the argument list without a check (the path loop says
  \<^verbatim>\<open>// todo error check\<close>), so the call panics instead: for a path placeholder, a
  query value placeholder and a protocol placeholder, each formatted without arguments.
\<close>

theorem missing_argument_panics:
  "TryUrlf ''http://example.com/{}'' [] = Some (Inl (Panic IndexOutOfRange)) \<and>
   TryUrlf ''http://example.com/?key={}'' [] = Some (Inl (Panic IndexOutOfRange)) \<and>
   TryUrlf ''{}://example.com/'' [] = Some (Inl (Panic IndexOutOfRange))"
  by (simp add: formatter_eval parse_eval digit_eval overwrite_eval bind_eval url_eval)

section \<open>The order of the query entries\<close>

text \<open>
  C2. The query entries should appear in the order in which their keys first occur in
  the template. The formatter collects them in a \<^verbatim>\<open>url.Values\<close> and prints it
  with \<^verbatim>\<open>Encode\<close>, which sorts the keys: the README's paging example, with
  \<^verbatim>\<open>word\<close> before \<^verbatim>\<open>page\<close> in the template, prints \<^verbatim>\<open>page\<close> first.
\<close>

theorem query_keys_sorted_example:
  "TryUrlf ''https://example.com/api/search?word={}&page={}'' [AString ''spicy food'', AInt 10] =
     Some (Inr ''https://example.com/api/search?page=10&word=spicy+food'')"
  by (simp add: formatter_eval parse_eval digit_eval overwrite_eval bind_eval url_eval)

section \<open>Endpoint override leaves the source template alone\<close>

lemma overwrite_hostname_frame:
  "overwrite_hostname h r = Inr r' \<Longrightarrow>
     paths r' = paths r \<and> queries r' = queries r \<and> fragment r' = fragment r"
  by (auto simp: overwrite_hostname_def Let_def split: if_splits option.splits prod.splits)

lemma overwrite_frame_pure:
  "overwrite src opt = Inr r \<Longrightarrow>
     paths r = paths src \<and> queries r = queries src \<and> fragment r = fragment src"
  by (auto simp: overwrite_def Let_def split: sum.splits if_splits dest!: overwrite_hostname_frame)

text \<open>
  C8. \<^verbatim>\<open>overwrite\<close> returns a new template: its address is not the source's, its
  paths, queries and fragment are the source's, and every object that was in the store
  before the call, the source among them, is what it was, as is the cache. A failed
  call changes nothing.
\<close>

theorem overwrite_leaves_source:
  assumes "overwrite_ptr src opt st = (res, st')" and "src < length (objects st)"
  shows "cache st' = cache st \<and>
         take (length (objects st)) (objects st') = objects st \<and>
         objects st' ! src = objects st ! src \<and>
         (case res of
            Inl e \<Rightarrow> st' = st
          | Inr dst \<Rightarrow>
              dst \<noteq> src \<and> dst < length (objects st') \<and>
              paths (objects st' ! dst) = paths (objects st ! src) \<and>
              queries (objects st' ! dst) = queries (objects st ! src) \<and>
              fragment (objects st' ! dst) = fragment (objects st ! src))"
proof (cases "overwrite (objects st ! src) opt")
  case (Inl e)
  with assms show ?thesis by (auto simp: overwrite_ptr_def)
next
  case (Inr r)
  from overwrite_frame_pure [OF Inr] Inr assms show ?thesis
    by (auto simp: overwrite_ptr_def nth_append)
qed

theorem overwrite_leaves_source_witness:
  "let t = empty_parseResult\<lparr>hostname := Some (StaticPart ''example.com''),
                              paths := [StaticPart ''/'', ParamPart 0]\<rparr>;
       st = \<lparr>objects = [t], cache = (\<lambda>f. None)(''//example.com/{}'' := Some 0)\<rparr>;
       opt = no_opt\<lparr>Hostname := ''https://api.example.com:8080''\<rparr>;
       res = overwrite_ptr 0 opt st
   in fst res = Inr 1 \<and> objects (snd res) ! 0 = t \<and> cache (snd res) = cache st \<and>
      paths (objects (snd res) ! 1) = [StaticPart ''/'', ParamPart 0] \<and>
      hostname (objects (snd res) ! 1) = Some (StaticPart ''api.example.com'') \<and>
      port (objects (snd res) ! 1) = Some (StaticPart 8080)"
proof -
  define t where "t = empty_parseResult\<lparr>hostname := Some (StaticPart ''example.com''),
                              paths := [StaticPart ''/'', ParamPart 0]\<rparr>"
  define st where "st = \<lparr>objects = [t], cache = (\<lambda>f. None)(''//example.com/{}'' := Some 0)\<rparr>"
  define opt where "opt = no_opt\<lparr>Hostname := ''https://api.example.com:8080''\<rparr>"
  have run: "overwrite_ptr 0 opt st =
      (Inr 1, st\<lparr>objects := [t, t\<lparr>protocol := Some (StaticPart ''https''),
                                    hostname := Some (StaticPart ''api.example.com''),
                                    port := Some (StaticPart 8080)\<rparr>]\<rparr>)"
    by (simp add: overwrite_ptr_def st_def opt_def t_def no_opt_def empty_parseResult_def
        overwrite_eval digit_eval)
  have "0 < length (objects st)" by (simp add: st_def)
  from overwrite_leaves_source [OF run this] run show ?thesis
    unfolding t_def [symmetric] st_def [symmetric] opt_def [symmetric] Let_def
    by (simp add: st_def t_def empty_parseResult_def)
qed

text \<open>
  A call of the formatter only adds to the store: the objects that were there are what
  they were, and a template that was cached stays cached at its address.
\<close>

lemma format_ptr_keeps_store:
  assumes "format_ptr opt ot args st = (res, st')"
  shows "cache st' = cache st \<and> take (length (objects st)) (objects st') = objects st"
  using assms
  by (auto simp: format_ptr_def overwrite_ptr_def split: sum.splits prod.splits)

lemma formatter_keeps_cache:
  assumes "TryCustomFormatter opt format args st = Some (res, st')"
    and "cache st f = Some a"
  shows "cache st' f = Some a \<and> take (length (objects st)) (objects st') = objects st"
proof (cases "cache st format")
  case (Some ot)
  with assms format_ptr_keeps_store [of opt ot args st res st'] show ?thesis
    by (simp add: TryCustomFormatter_def)
next
  case None
  with assms(2) have ne: "f \<noteq> format" by auto
  from None assms(1) obtain pr where pr: "parse format = Some pr"
    by (cases "parse format") (auto simp: TryCustomFormatter_def)
  show ?thesis
  proof (cases pr)
    case (Inl e)
    with None pr assms show ?thesis by (simp add: TryCustomFormatter_def)
  next
    case (Inr r)
    let ?st = "st\<lparr>objects := objects st @ [r], cache := (cache st)(format := Some (length (objects st)))\<rparr>"
    from None pr Inr assms(1) have "format_ptr opt (length (objects st)) args ?st = (res, st')"
      by (simp add: TryCustomFormatter_def Let_def)
    from format_ptr_keeps_store [OF this] assms(2) ne show ?thesis
      by (auto simp: take_append dest: arg_cong [where f = "take (length (objects st))"])
  qed
qed

section \<open>Port literals\<close>








section \<open>Slots bound to nil\<close>

lemma substitute_eqI:
  assumes "bindScheme t args = bindScheme t' args'"
    and "\<And>s. bindHost t args s = bindHost t' args' s"
    and "\<And>h. bindPort t args h = bindPort t' args' h"
    and "bindPaths (paths t) args [] = bindPaths (paths t') args' []"
    and "bindQueries (queries t) args [] = bindQueries (queries t') args' []"
    and "bindFragment t args = bindFragment t' args'"
    and "username t = username t'" and "password t = password t'"
  shows "substitute t args = substitute t' args'"
  using assms by (simp add: substitute_def cong: sum.case_cong)

lemma bindPort_empty: "bindPort t args [] = Inr []"
  by (simp add: bindPort_def)

lemma substitute_empty_host:
  assumes "bindScheme t args = Inr s0" and "bindHost t args s0 = Inr (s, [])"
  shows "substitute t args =
     (case bindPaths (paths t) args [] of
        Inl e \<Rightarrow> Inl e
      | Inr ps \<Rightarrow>
     (case bindQueries (queries t) args [] of
        Inl e \<Rightarrow> Inl e
      | Inr query \<Rightarrow>
     (case bindFragment t args of
        Inl e \<Rightarrow> Inl e
      | Inr frag \<Rightarrow>
          Inr \<lparr>Scheme = s,
               User = (if username t \<noteq> [] then Some (username t, password t) else None),
               Host = [],
               Path = foldl joinPath [] ps,
               RawQuery = Encode query,
               Fragment = frag\<rparr>)))"
  using assms by (simp add: substitute_def bindPort_empty)

lemma nil_host:
  assumes "hostname t = Some (ParamPart i)" "i < length args" "args ! i = ANil"
  shows "bindHost t args s = Inr ([], [])"
  using assms by (simp add: bindHost_def arg_at_def bind_string_def)

lemma nil_protocol:
  assumes "protocol t = Some (ParamPart i)" "i < length args" "args ! i = ANil"
  shows "bindScheme t args = Inr []"
  using assms by (simp add: bindScheme_def arg_at_def bind_string_def)

lemma nil_port:
  assumes "port t = Some (ParamPart i)" "i < length args" "args ! i = ANil"
  shows "bindPort t args h = Inr h"
  using assms by (simp add: bindPort_def arg_at_def)

lemma nil_fragment:
  assumes "fragment t = Some (ParamPart i)" "i < length args" "args ! i = ANil"
  shows "bindFragment t args = Inr []"
  using assms by (simp add: bindFragment_def arg_at_def bind_string_def)

text \<open>
  C4. The null of a nullable string or int is a nil pointer: the README passes nil
  \<^verbatim>\<open>*string\<close> and \<^verbatim>\<open>*int\<close> variables and shows the slot left out. The
  formatter takes the pointer case of its type switch and dereferences the pointer
  without a check, so the call panics where the slot should be omitted: for a host name,
  a protocol, a port and a fragment placeholder.
\<close>

theorem nil_pointer_panics:
  "TryUrlf ''http://{}/to/resource/path'' [AStringPtr None] = Some (Inl (Panic NilDereference)) \<and>
   TryUrlf ''{}://example.com/'' [AStringPtr None] = Some (Inl (Panic NilDereference)) \<and>
   TryUrlf ''http://example.com:{}/'' [AIntPtr None] = Some (Inl (Panic NilDereference)) \<and>
   TryUrlf ''http://example.com/#{}'' [AStringPtr None] = Some (Inl (Panic NilDereference))"
  by (simp add: formatter_eval parse_eval digit_eval overwrite_eval bind_eval url_eval)

text \<open>
  The nil interface value (an untyped \<^verbatim>\<open>nil\<close> argument) is omitted as
  documented. Bound to a host name placeholder it leaves the URL without scheme and
  without host, whatever the protocol slot holds: the result is that of the template with
  neither slot. Bound to a protocol, port or fragment placeholder it gives the result of
  the template without that one slot.
\<close>

lemma null_slot_omitted:
  "(hostname t = Some (ParamPart i) \<and> i < length args \<and> args ! i = ANil \<and>
      substitute t args = Inr u \<longrightarrow>
        Scheme u = [] \<and> Host u = [] \<and>
        substitute (t\<lparr>protocol := None, hostname := None\<rparr>) args = Inr u) \<and>
   (protocol t = Some (ParamPart i) \<and> i < length args \<and> args ! i = ANil \<longrightarrow>
      substitute t args = substitute (t\<lparr>protocol := None\<rparr>) args) \<and>
   (port t = Some (ParamPart i) \<and> i < length args \<and> args ! i = ANil \<longrightarrow>
      substitute t args = substitute (t\<lparr>port := None\<rparr>) args) \<and>
   (fragment t = Some (ParamPart i) \<and> i < length args \<and> args ! i = ANil \<longrightarrow>
      substitute t args = substitute (t\<lparr>fragment := None\<rparr>) args)"
proof (intro conjI impI)
  assume h: "hostname t = Some (ParamPart i) \<and> i < length args \<and> args ! i = ANil \<and>
      substitute t args = Inr u"
  then obtain s0 where s0: "bindScheme t args = Inr s0"
    by (cases "bindScheme t args") (auto simp: substitute_def)
  from h have host: "bindHost t args s0 = Inr ([], [])" by (simp add: nil_host)
  let ?t = "t\<lparr>protocol := None, hostname := None\<rparr>"
  have s0': "bindScheme ?t args = Inr []" by (simp add: bindScheme_def)
  have host': "bindHost ?t args [] = Inr ([], [])" by (simp add: bindHost_def)
  have frag: "bindFragment ?t args = bindFragment t args" by (simp add: bindFragment_def)
  have eq: "substitute ?t args = substitute t args"
    unfolding substitute_empty_host [OF s0 host] substitute_empty_host [OF s0' host']
    by (simp add: frag cong: sum.case_cong)
  from h show "Scheme u = []" "Host u = []"
    unfolding substitute_empty_host [OF s0 host] by (auto split: sum.splits)
  from h eq show "substitute ?t args = Inr u" by simp
next
  assume a: "protocol t = Some (ParamPart i) \<and> i < length args \<and> args ! i = ANil"
  show "substitute t args = substitute (t\<lparr>protocol := None\<rparr>) args"
  proof (rule substitute_eqI)
    from a show "bindScheme t args = bindScheme (t\<lparr>protocol := None\<rparr>) args"
      by (simp add: nil_protocol) (simp add: bindScheme_def)
  qed (simp_all add: bindHost_def bindPort_def bindFragment_def)
next
  assume a: "port t = Some (ParamPart i) \<and> i < length args \<and> args ! i = ANil"
  show "substitute t args = substitute (t\<lparr>port := None\<rparr>) args"
  proof (rule substitute_eqI)
    fix h from a show "bindPort t args h = bindPort (t\<lparr>port := None\<rparr>) args h"
      by (simp add: nil_port) (simp add: bindPort_def)
  qed (simp_all add: bindHost_def bindScheme_def bindFragment_def)
next
  assume a: "fragment t = Some (ParamPart i) \<and> i < length args \<and> args ! i = ANil"
  show "substitute t args = substitute (t\<lparr>fragment := None\<rparr>) args"
  proof (rule substitute_eqI)
    from a show "bindFragment t args = bindFragment (t\<lparr>fragment := None\<rparr>) args"
      by (simp add: nil_fragment) (simp add: bindFragment_def)
  qed (simp_all add: bindHost_def bindScheme_def bindPort_def)
qed

lemma null_slot_omitted_example:
  "format_template
     (empty_parseResult\<lparr>protocol := Some (StaticPart ''http''), hostname := Some (ParamPart 0),
        port := Some (StaticPart 8080), paths := [StaticPart ''/to/resource/path'']\<rparr>) [ANil] =
     Inr ''/to/resource/path'' \<and>
   format_template
     (empty_parseResult\<lparr>protocol := Some (ParamPart 0), hostname := Some (StaticPart ''example.com''),
        port := Some (ParamPart 1), fragment := Some (ParamPart 2)\<rparr>) [ANil, ANil, ANil] =
     Inr ''//example.com''"
proof -
  define t1 where "t1 = empty_parseResult\<lparr>protocol := Some (StaticPart ''http''),
     hostname := Some (ParamPart 0), port := Some (StaticPart 8080),
     paths := [StaticPart ''/to/resource/path'']\<rparr>"
  define t2 where "t2 = empty_parseResult\<lparr>protocol := Some (ParamPart 0),
     hostname := Some (StaticPart ''example.com''), port := Some (ParamPart 1),
     fragment := Some (ParamPart 2)\<rparr>"
  define u1 where "u1 = \<lparr>Scheme = [], User = None, Host = [], Path = ''/to/resource/path'',
     RawQuery = [], Fragment = []\<rparr>"
  have run: "substitute t1 [ANil] = Inr u1"
    by (simp add: t1_def u1_def empty_parseResult_def bind_eval url_eval)
  have "hostname t1 = Some (ParamPart 0) \<and> 0 < length [ANil] \<and> [ANil] ! 0 = ANil \<and>
        substitute t1 [ANil] = Inr u1"
    using run by (simp add: t1_def)
  with null_slot_omitted [of t1 0 "[ANil]" u1]
  have a: "Scheme u1 = [] \<and> Host u1 = [] \<and>
           substitute (t1\<lparr>protocol := None, hostname := None\<rparr>) [ANil] = Inr u1"
    by blast
  have b: "substitute t2 [ANil, ANil, ANil] = substitute (t2\<lparr>protocol := None\<rparr>) [ANil, ANil, ANil]"
    using null_slot_omitted [of t2 0 "[ANil, ANil, ANil]"] by (simp add: t2_def)
  have c: "substitute (t2\<lparr>protocol := None\<rparr>) [ANil, ANil, ANil] =
           substitute (t2\<lparr>protocol := None, port := None\<rparr>) [ANil, ANil, ANil]"
    using null_slot_omitted [of "t2\<lparr>protocol := None\<rparr>" 1 "[ANil, ANil, ANil]"] by (simp add: t2_def)
  have d: "substitute (t2\<lparr>protocol := None, port := None\<rparr>) [ANil, ANil, ANil] =
           substitute (t2\<lparr>protocol := None, port := None, fragment := None\<rparr>) [ANil, ANil, ANil]"
    using null_slot_omitted [of "t2\<lparr>protocol := None, port := None\<rparr>" 2 "[ANil, ANil, ANil]"]
    by (simp add: t2_def)
  have e: "format_template (t2\<lparr>protocol := None, port := None, fragment := None\<rparr>) [ANil, ANil, ANil] =
           Inr ''//example.com''"
    by (simp add: t2_def empty_parseResult_def bind_eval url_eval digit_eval)
  have "format_template t1 [ANil] = Inr ''/to/resource/path''"
    using a by (simp add: format_template_def run u1_def url_eval digit_eval)
  moreover have "format_template t2 [ANil, ANil, ANil] = Inr ''//example.com''"
    using e unfolding format_template_def b c d .
  ultimately show ?thesis unfolding t1_def t2_def by simp
qed

text \<open>
  C9. When the host name resolves to the empty string (no host slot, a nil argument or an
  empty string), the port slot is not looked at: the result is that of the template
  without a port, and the host of the URL is empty.
\<close>

theorem empty_host_omits_port:
  assumes "host_resolves_empty t args"
  shows "substitute t args = substitute (t\<lparr>port := None\<rparr>) args \<and>
         (\<forall>u. substitute t args = Inr u \<longrightarrow> Host u = [])"
proof (cases "bindScheme t args")
  case (Inl e)
  moreover have "bindScheme (t\<lparr>port := None\<rparr>) args = bindScheme t args"
    by (simp add: bindScheme_def)
  ultimately show ?thesis by (simp add: substitute_def)
next
  case (Inr s0)
  let ?t = "t\<lparr>port := None\<rparr>"
  from assms obtain s where host: "bindHost t args s0 = Inr (s, [])"
    by (auto simp: host_resolves_empty_def bindHost_def arg_at_def bind_string_def
        split: option.splits part.splits)
  have s0': "bindScheme ?t args = Inr s0" using Inr by (simp add: bindScheme_def)
  have host': "bindHost ?t args s0 = Inr (s, [])" using host by (simp add: bindHost_def)
  have frag: "bindFragment ?t args = bindFragment t args" by (simp add: bindFragment_def)
  have "substitute t args = substitute ?t args"
    unfolding substitute_empty_host [OF Inr host] substitute_empty_host [OF s0' host']
    by (simp add: frag cong: sum.case_cong)
  moreover have "Host u = []" if "substitute t args = Inr u" for u
    using that unfolding substitute_empty_host [OF Inr host] by (auto split: sum.splits)
  ultimately show ?thesis by blast
qed

theorem empty_host_omits_port_witness:
  "format_template
     (empty_parseResult\<lparr>protocol := Some (StaticPart ''http''), hostname := Some (ParamPart 0),
        port := Some (ParamPart 1), paths := [StaticPart ''/a'']\<rparr>) [AString [], AInt 8080] =
     Inr ''http:///a''"
proof -
  define t where "t = empty_parseResult\<lparr>protocol := Some (StaticPart ''http''),
     hostname := Some (ParamPart 0), port := Some (ParamPart 1), paths := [StaticPart ''/a'']\<rparr>"
  have "host_resolves_empty t [AString [], AInt 8080]"
    by (simp add: host_resolves_empty_def t_def)
  from empty_host_omits_port [OF this]
  have "substitute t [AString [], AInt 8080] = substitute (t\<lparr>port := None\<rparr>) [AString [], AInt 8080]"
    by blast
  moreover have "format_template (t\<lparr>port := None\<rparr>) [AString [], AInt 8080] = Inr ''http:///a''"
    by (simp add: t_def empty_parseResult_def bind_eval url_eval digit_eval)
  ultimately show ?thesis unfolding t_def format_template_def by simp
qed

section \<open>Query values\<close>

lemma Get_all_Nil: "Get_all [] k = []"
  by (simp add: Get_all_def)

lemma Get_all_Add: "Get_all (Add k v q) k' = (if k' = k then Get_all q k @ [v] else Get_all q k')"
  by (simp add: Get_all_def Add_def update_conv')

lemma Get_all_Set_value: "Get_all (Set_value k v q) k' = (if k' = k then [v] else Get_all q k')"
  by (simp add: Get_all_def Set_value_def update_conv')

lemma updateSlice_other:
  assumes "updateSlice k es i q = Inr q'" and "k' \<noteq> k"
  shows "Get_all q' k' = Get_all q k'"
  using assms
proof (induction es arbitrary: i q)
  case Nil
  then show ?case by simp
next
  case (Cons e es)
  show ?case
  proof (cases "scalar_text e")
    case (Inl f)
    with Cons.prems show ?thesis by simp
  next
    case (Inr x)
    show ?thesis
    proof (cases x)
      case None
      with Inr Cons.prems Cons.IH [of "Suc i" q] show ?thesis by simp
    next
      case (Some v)
      with Inr Cons.prems Cons.IH [of "Suc i" "if i = 0 then Set_value k v q else Add k v q"]
      show ?thesis by (simp add: Get_all_Add Get_all_Set_value split: if_splits)
    qed
  qed
qed

lemma updateQuery_other:
  assumes "updateQuery k a q = Inr q'" and "k' \<noteq> k"
  shows "Get_all q' k' = Get_all q k'"
proof (cases a)
  case (ASlice es)
  with assms show ?thesis by (simp add: updateQuery_def updateSlice_other)
qed (use assms in \<open>auto simp: updateQuery_def scalar_text_def Get_all_Add split: option.splits\<close>)

lemma bindQuery_other:
  assumes "bindQuery qp args q = Inr q'" and "key qp \<noteq> k'" and "key qp \<noteq> []"
  shows "Get_all q' k' = Get_all q k'"
proof (cases "qvalue qp")
  case (StaticPart v)
  with assms show ?thesis by (auto simp: bindQuery_def Get_all_Add)
next
  case (ParamPart i)
  with assms show ?thesis
    by (auto simp: bindQuery_def arg_at_def split: if_splits dest!: updateQuery_other [where k' = k'])
qed

lemma bindQueries_other:
  assumes "bindQueries qs args q = Inr q'" and "\<forall>qp\<in>set qs. key qp \<noteq> k' \<and> key qp \<noteq> []"
  shows "Get_all q' k' = Get_all q k'"
  using assms
proof (induction qs arbitrary: q)
  case Nil
  then show ?case by simp
next
  case (Cons qp qs)
  then obtain q1 where q1: "bindQuery qp args q = Inr q1" "bindQueries qs args q1 = Inr q'"
    by (auto split: sum.splits)
  from bindQuery_other [OF q1(1)] Cons.prems have "Get_all q1 k' = Get_all q k'" by simp
  with Cons.IH [OF q1(2)] Cons.prems show ?case by simp
qed

lemma bindQueries_append:
  "bindQueries (qs1 @ qs2) args q =
     (case bindQueries qs1 args q of Inl e \<Rightarrow> Inl e | Inr q' \<Rightarrow> bindQueries qs2 args q')"
  by (induction qs1 arbitrary: q) (auto split: sum.splits)

lemma bindQuery_nil:
  assumes "qvalue qp = ParamPart i" "key qp \<noteq> []" "i < length args" "args ! i = ANil"
  shows "bindQuery qp args q = Inr q"
  using assms by (simp add: bindQuery_def arg_at_def updateQuery_def scalar_text_def)

text \<open>
  C3. Binding the nil interface value to a query value placeholder does not remove the
  values that other entries give the key: with an earlier static entry for the same key
  the key stays in the output.
\<close>

theorem null_query_keeps_static_counterexample:
  "TryUrlf ''http://api.example.com/users/?key=old&key={}'' [ANil] =
     Some (Inr ''http://api.example.com/users/?key=old'')"
  by (simp add: formatter_eval parse_eval digit_eval overwrite_eval bind_eval url_eval)

text \<open>
  C3, as the code has it. The nil interface value (an untyped \<^verbatim>\<open>nil\<close>
  argument) makes the placeholder entry contribute nothing: the result is that of the
  template without the entry. So the key is absent from the query string when no other
  entry of the template is for this key (and none is a query set), and the values of
  other entries for the key are kept. A nil pointer is another value and is not meant
  here.
\<close>

theorem null_query_entry_omitted:
  assumes "queries t = qs1 @ \<lparr>key = k, qvalue = ParamPart i\<rparr> # qs2"
    and "k \<noteq> []" and "i < length args" and "args ! i = ANil"
  shows "substitute t args = substitute (t\<lparr>queries := qs1 @ qs2\<rparr>) args \<and>
         ((\<forall>qp\<in>set (qs1 @ qs2). key qp \<noteq> k \<and> key qp \<noteq> []) \<longrightarrow>
          (\<forall>q. bindQueries (queries t) args [] = Inr q \<longrightarrow> Get_all q k = [] \<and> encode_key q k = []))"
proof -
  have nil: "bindQuery \<lparr>key = k, qvalue = ParamPart i\<rparr> args q = Inr q" for q
    using assms by (simp add: bindQuery_nil)
  have same: "bindQueries (queries t) args [] = bindQueries (qs1 @ qs2) args []"
    unfolding assms(1) bindQueries_append [of qs1] bindQueries_append [of qs1 qs2]
    by (simp add: nil cong: sum.case_cong)
  have "substitute t args = substitute (t\<lparr>queries := qs1 @ qs2\<rparr>) args"
    by (rule substitute_eqI)
       (simp_all add: same bindScheme_def bindHost_def bindPort_def bindFragment_def)
  moreover have "Get_all q k = [] \<and> encode_key q k = []"
    if "\<forall>qp\<in>set (qs1 @ qs2). key qp \<noteq> k \<and> key qp \<noteq> []"
      and "bindQueries (queries t) args [] = Inr q" for q
    using bindQueries_other [of "qs1 @ qs2" args "[]" q k] that same
    by (simp add: Get_all_Nil encode_key_def)
  ultimately show ?thesis by blast
qed

theorem null_query_entry_omitted_witness:
  "format_template
     (empty_parseResult\<lparr>hostname := Some (StaticPart ''api.example.com''),
        paths := [StaticPart ''/users/''],
        queries := [\<lparr>key = ''page'', qvalue = StaticPart ''2''\<rparr>,
                    \<lparr>key = ''key'', qvalue = ParamPart 0\<rparr>]\<rparr>) [ANil] =
     Inr ''//api.example.com/users/?page=2''"
proof -
  define t where "t = empty_parseResult\<lparr>hostname := Some (StaticPart ''api.example.com''),
        paths := [StaticPart ''/users/''],
        queries := [\<lparr>key = ''page'', qvalue = StaticPart ''2''\<rparr>,
                    \<lparr>key = ''key'', qvalue = ParamPart 0\<rparr>]\<rparr>"
  have "queries t = [\<lparr>key = ''page'', qvalue = StaticPart ''2''\<rparr>] @
          \<lparr>key = ''key'', qvalue = ParamPart 0\<rparr> # []"
    by (simp add: t_def)
  from null_query_entry_omitted [OF this, of "[ANil]"]
  have "substitute t [ANil] =
        substitute (t\<lparr>queries := [\<lparr>key = ''page'', qvalue = StaticPart ''2''\<rparr>]\<rparr>) [ANil]"
    by simp
  moreover
  have "format_template (t\<lparr>queries := [\<lparr>key = ''page'', qvalue = StaticPart ''2''\<rparr>]\<rparr>) [ANil] =
        Inr ''//api.example.com/users/?page=2''"
    by (simp add: t_def empty_parseResult_def bind_eval url_eval digit_eval)
  ultimately show ?thesis unfolding t_def format_template_def by simp
qed

text \<open>
  When every entry so far was for one key, the query values hold this key alone, and
  \<^verbatim>\<open>Encode\<close> prints its values in their order.
\<close>

lemma Add_single:
  "q = [] \<or> (\<exists>vs. q = [(k, vs)]) \<Longrightarrow> \<exists>vs. Add k v q = [(k, vs)]"
  by (auto simp: Add_def Get_all_def)

lemma Set_value_single:
  "q = [] \<or> (\<exists>vs. q = [(k, vs)]) \<Longrightarrow> \<exists>vs. Set_value k v q = [(k, vs)]"
  by (auto simp: Set_value_def)

lemma updateSlice_single:
  "updateSlice k es i q = Inr q' \<Longrightarrow> q = [] \<or> (\<exists>vs. q = [(k, vs)]) \<Longrightarrow>
     q' = [] \<or> (\<exists>vs. q' = [(k, vs)])"
proof (induction es arbitrary: i q)
  case Nil
  then show ?case by auto
next
  case (Cons e es)
  show ?case
  proof (cases "scalar_text e")
    case (Inl f)
    with Cons.prems show ?thesis by simp
  next
    case (Inr x)
    show ?thesis
    proof (cases x)
      case None
      with Inr Cons.prems Cons.IH [of "Suc i" q] show ?thesis by simp
    next
      case (Some v)
      let ?q = "if i = 0 then Set_value k v q else Add k v q"
      from Cons.prems(2) have "\<exists>vs. ?q = [(k, vs)]"
        using Add_single [of q k v] Set_value_single [of q k v] by auto
      with Some Inr Cons.prems(1) Cons.IH [of "Suc i" ?q] show ?thesis by simp
    qed
  qed
qed

lemma static_entries_single:
  "bindQueries qs args q = Inr q' \<Longrightarrow> \<forall>qp\<in>set qs. static_for k qp \<Longrightarrow>
     q = [] \<or> (\<exists>vs. q = [(k, vs)]) \<Longrightarrow> q' = [] \<or> (\<exists>vs. q' = [(k, vs)])"
proof (induction qs arbitrary: q)
  case Nil
  then show ?case by auto
next
  case (Cons qp qs)
  from Cons.prems(2) obtain v where qp: "key qp = k" "qvalue qp = StaticPart v"
    by (auto simp: static_for_def split: part.splits)
  then have "bindQuery qp args q = Inr (Add k v q)" by (simp add: bindQuery_def)
  with Cons.prems(1) have "bindQueries qs args (Add k v q) = Inr q'" by simp
  from Cons.IH [OF this] Cons.prems(2) Add_single [OF Cons.prems(3), of v] show ?case by auto
qed

lemma scalar_text_element: "no_nil_pointer e \<Longrightarrow> scalar_text e = Inr (element_text e)"
  by (cases e rule: no_nil_pointer.cases) (simp_all add: scalar_text_def)

lemma updateSlice_later:
  "list_all no_nil_pointer es \<Longrightarrow> 0 < i \<Longrightarrow>
     \<exists>q'. updateSlice k es i q = Inr q' \<and>
          (\<forall>k'. Get_all q' k' = (if k' = k then Get_all q k @ element_texts es else Get_all q k'))"
proof (induction es arbitrary: i q)
  case Nil
  then show ?case by simp
next
  case (Cons e es)
  then have e: "scalar_text e = Inr (element_text e)" and es: "list_all no_nil_pointer es"
    by (simp_all add: scalar_text_element)
  show ?case
  proof (cases "element_text e")
    case None
    with e Cons.IH [OF es, of "Suc i" q] show ?thesis by auto
  next
    case (Some v)
    with e Cons.IH [OF es, of "Suc i" "Add k v q"] Cons.prems(2) show ?thesis
      by (auto simp: Get_all_Add)
  qed
qed

lemma updateSlice_zero:
  assumes "list_all no_nil_pointer es"
  shows "\<exists>q'. updateSlice k es 0 q = Inr q' \<and>
          Get_all q' k = (if first_is_text es then [] else Get_all q k) @ element_texts es \<and>
          (\<forall>k'. k' \<noteq> k \<longrightarrow> Get_all q' k' = Get_all q k')"
proof (cases es)
  case Nil
  then show ?thesis by (simp add: first_is_text_def)
next
  case (Cons e es')
  with assms have e: "scalar_text e = Inr (element_text e)" and es: "list_all no_nil_pointer es'"
    by (simp_all add: scalar_text_element)
  show ?thesis
  proof (cases "element_text e")
    case None
    with e Cons updateSlice_later [OF es, of "Suc 0" k q] show ?thesis
      by (auto simp: first_is_text_def)
  next
    case (Some v)
    with e Cons updateSlice_later [OF es, of "Suc 0" k "Set_value k v q"] show ?thesis
      by (auto simp: first_is_text_def Get_all_Set_value)
  qed
qed

lemma static_entries_values:
  "\<forall>qp\<in>set qs. static_for k qp \<Longrightarrow>
     \<exists>q'. bindQueries qs args q = Inr q' \<and> Get_all q' k = Get_all q k @ static_values qs"
proof (induction qs arbitrary: q)
  case Nil
  then show ?case by (simp add: static_values_def)
next
  case (Cons qp qs)
  then obtain v where qp: "key qp = k" "qvalue qp = StaticPart v"
    by (auto simp: static_for_def split: part.splits)
  then have b: "bindQuery qp args q = Inr (Add k v q)" by (simp add: bindQuery_def)
  from Cons.IH [of "Add k v q"] Cons.prems obtain q' where
    "bindQueries qs args (Add k v q) = Inr q'"
    "Get_all q' k = Get_all (Add k v q) k @ static_values qs" by auto
  with b qp show ?case by (simp add: Get_all_Add static_values_def)
qed

lemma Encode_one_key:
  assumes "q = [] \<or> (\<exists>vs. q = [(k, vs)])"
  shows "Encode q = pairs k (Get_all q k)"
  using assms by (auto simp: Encode_def encode_key_def Get_all_def pairs_def)

text \<open>
  C6. The first element of a list overwrites only when it is the element at index 0 and
  has a text: with a nil element first, \<^verbatim>\<open>Set\<close> is never called, and the texts
  of the later elements are added to the value the static entry gave the key.
\<close>

theorem query_slice_nil_first_counterexample:
  "TryUrlf ''http://api.example.com/users/?key=old&key={}'' [ASlice [ANil, AString ''b'']] =
     Some (Inr ''http://api.example.com/users/?key=old&key=b'')"
  by (simp add: formatter_eval parse_eval digit_eval overwrite_eval bind_eval url_eval)

text \<open>
  C6, as the code has it. A list without nil pointers bound to a query value placeholder
  is always bound. The texts of its elements that are strings, ints or non-nil pointers
  to them, in their order, become the last values of the key, nil elements and elements
  of other types left out; they replace the values the key had when the element at
  index 0 has a text, and are added to them otherwise. No other key changes. When the
  entries before the placeholder are static entries for the same key and the placeholder
  is the last entry, this is the whole query string: for the list of \<^verbatim>\<open>a\<close>,
  \<^verbatim>\<open>b\<close>, \<^verbatim>\<open>c\<close> after \<^verbatim>\<open>key=old\<close> it is
  \<^verbatim>\<open>key=a&key=b&key=c\<close>.
\<close>

theorem query_slice_binding:
  assumes "k \<noteq> []" and "i < length args" and "args ! i = ASlice es"
    and "list_all no_nil_pointer es"
  shows "(\<exists>q'. bindQuery \<lparr>key = k, qvalue = ParamPart i\<rparr> args q = Inr q' \<and>
              Get_all q' k = (if first_is_text es then [] else Get_all q k) @ element_texts es \<and>
              (\<forall>k'. k' \<noteq> k \<longrightarrow> Get_all q' k' = Get_all q k')) \<and>
         (queries t = qs1 @ [\<lparr>key = k, qvalue = ParamPart i\<rparr>] \<and>
          (\<forall>qp\<in>set qs1. static_for k qp) \<longrightarrow>
            (\<exists>q'. bindQueries (queries t) args [] = Inr q' \<and>
                  Encode q' =
                    pairs k ((if first_is_text es then [] else static_values qs1) @ element_texts es) \<and>
                  (\<forall>u. substitute t args = Inr u \<longrightarrow> RawQuery u = Encode q')))"
proof -
  have entry: "bindQuery \<lparr>key = k, qvalue = ParamPart i\<rparr> args q = updateSlice k es 0 q" for q
    using assms by (simp add: bindQuery_def arg_at_def updateQuery_def)
  have first: "\<exists>q'. bindQuery \<lparr>key = k, qvalue = ParamPart i\<rparr> args q = Inr q' \<and>
              Get_all q' k = (if first_is_text es then [] else Get_all q k) @ element_texts es \<and>
              (\<forall>k'. k' \<noteq> k \<longrightarrow> Get_all q' k' = Get_all q k')" for q
    unfolding entry by (rule updateSlice_zero [OF assms(4)])
  have second: "\<exists>q'. bindQueries (queries t) args [] = Inr q' \<and>
                  Encode q' =
                    pairs k ((if first_is_text es then [] else static_values qs1) @ element_texts es) \<and>
                  (\<forall>u. substitute t args = Inr u \<longrightarrow> RawQuery u = Encode q')"
    if t: "queries t = qs1 @ [\<lparr>key = k, qvalue = ParamPart i\<rparr>]"
      and only: "\<forall>qp\<in>set qs1. static_for k qp"
  proof -
    from static_entries_values [OF only, of args "[]"] obtain q1 where
      q1: "bindQueries qs1 args [] = Inr q1" "Get_all q1 k = static_values qs1"
      by (auto simp: Get_all_Nil)
    from static_entries_single [OF q1(1) only] have s1: "q1 = [] \<or> (\<exists>vs. q1 = [(k, vs)])" by simp
    from first [of q1] obtain q2 where
      q2: "bindQuery \<lparr>key = k, qvalue = ParamPart i\<rparr> args q1 = Inr q2"
        "Get_all q2 k = (if first_is_text es then [] else Get_all q1 k) @ element_texts es"
      by auto
    from q2(1) have "updateSlice k es 0 q1 = Inr q2" unfolding entry .
    from updateSlice_single [OF this s1] have s2: "q2 = [] \<or> (\<exists>vs. q2 = [(k, vs)])" .
    have run: "bindQueries (queries t) args [] = Inr q2"
      unfolding t bindQueries_append using q1(1) q2(1) by simp
    have enc: "Encode q2 =
        pairs k ((if first_is_text es then [] else static_values qs1) @ element_texts es)"
      unfolding Encode_one_key [OF s2] q2(2) q1(2) ..
    have "RawQuery u = Encode q2" if "substitute t args = Inr u" for u
      using that run by (auto simp: substitute_def split: sum.splits)
    with run enc show ?thesis by blast
  qed
  from first second show ?thesis by blast
qed

theorem query_slice_binding_witness:
  "(\<exists>q'. bindQueries [\<lparr>key = ''key'', qvalue = StaticPart ''old''\<rparr>,
                        \<lparr>key = ''key'', qvalue = ParamPart 0\<rparr>]
            [ASlice [AString ''a'', AString ''b'', AString ''c'']] [] = Inr q' \<and>
         Encode q' = ''key=a&key=b&key=c'') \<and>
   (\<exists>q'. bindQueries [\<lparr>key = ''key'', qvalue = StaticPart ''old''\<rparr>,
                        \<lparr>key = ''key'', qvalue = ParamPart 0\<rparr>]
            [ASlice [ANil, AString ''b'', AInt 3]] [] = Inr q' \<and>
         Encode q' = ''key=old&key=b&key=3'') \<and>
   TryUrlf ''http://api.example.com/users/?key=old&key={}''
     [ASlice [AString ''a'', AString ''b'', AString ''c'']] =
     Some (Inr ''http://api.example.com/users/?key=a&key=b&key=c'')"
proof -
  define t where "t = empty_parseResult\<lparr>queries :=
     [\<lparr>key = ''key'', qvalue = StaticPart ''old''\<rparr>, \<lparr>key = ''key'', qvalue = ParamPart 0\<rparr>]\<rparr>"
  have q: "queries t = [\<lparr>key = ''key'', qvalue = StaticPart ''old''\<rparr>] @
             [\<lparr>key = ''key'', qvalue = ParamPart 0\<rparr>] \<and>
           (\<forall>qp\<in>set [\<lparr>key = ''key'', qvalue = StaticPart ''old''\<rparr>]. static_for ''key'' qp)"
    by (simp add: t_def static_for_def)
  let ?old = "[\<lparr>key = ''key'', qvalue = StaticPart ''old''\<rparr>]"
  have e1: "pairs ''key'' ((if first_is_text [AString ''a'', AString ''b'', AString ''c''] then []
              else static_values ?old) @ element_texts [AString ''a'', AString ''b'', AString ''c'']) =
            ''key=a&key=b&key=c''"
    by (simp add: first_is_text_def static_values_def pairs_def QueryEscape_def escape_def
        escape_byte_def shouldEscape_def is_alnum_def)
  have e2: "pairs ''key'' ((if first_is_text [ANil, AString ''b'', AInt 3] then []
              else static_values ?old) @ element_texts [ANil, AString ''b'', AInt 3]) =
            ''key=old&key=b&key=3''"
    by (simp add: first_is_text_def static_values_def pairs_def QueryEscape_def escape_def
        escape_byte_def shouldEscape_def is_alnum_def Itoa_def nat_digits.simps digit_char_def)
  have "''key'' \<noteq> []" by simp
  note inst = query_slice_binding [OF this, of 0, THEN conjunct2, THEN mp, OF _ _ _ q]
  have 1: "\<exists>q'. bindQueries (queries t) [ASlice [AString ''a'', AString ''b'', AString ''c'']] [] = Inr q' \<and>
             Encode q' = ''key=a&key=b&key=c''"
    using inst [of "[ASlice [AString ''a'', AString ''b'', AString ''c'']]"
        "[AString ''a'', AString ''b'', AString ''c'']"]
    unfolding e1 by auto
  have 2: "\<exists>q'. bindQueries (queries t) [ASlice [ANil, AString ''b'', AInt 3]] [] = Inr q' \<and>
             Encode q' = ''key=old&key=b&key=3''"
    using inst [of "[ASlice [ANil, AString ''b'', AInt 3]]" "[ANil, AString ''b'', AInt 3]"]
    unfolding e2 by auto
  have 3: "TryUrlf ''http://api.example.com/users/?key=old&key={}''
     [ASlice [AString ''a'', AString ''b'', AString ''c'']] =
     Some (Inr ''http://api.example.com/users/?key=a&key=b&key=c'')"
    by (simp add: formatter_eval parse_eval digit_eval overwrite_eval bind_eval url_eval)
  from 1 2 3 show ?thesis unfolding t_def by simp
qed

section \<open>A port in the host name option\<close>

lemma not_word_colon: "\<not> is_word CHR '':''"
  by (simp add: is_word_def is_alnum_def)

lemma digit_not_slash: "is_digit d \<Longrightarrow> d \<noteq> CHR ''/''"
  by (auto simp: is_digit_def)

lemma before_colon:
  assumes "list_all not_colon h"
  shows "takeWhile not_colon (h @ CHR '':'' # ds) = h"
    and "dropWhile not_colon (h @ CHR '':'' # ds) = CHR '':'' # ds"
  using assms by (simp_all add: takeWhile_append2 dropWhile_append2 list_all_iff not_colon_def)

lemma port_group_digits: "all_digits ds \<Longrightarrow> port_group (CHR '':'' # ds) = CHR '':'' # ds"
  by (cases ds) (auto simp: port_group_def all_digits_def list_all_iff)

lemma no_scheme_seen:
  assumes h: "list_all not_colon h" and ds: "all_digits ds"
  shows "take 3 (dropWhile is_word (h @ CHR '':'' # ds)) \<noteq> ''://''"
proof
  let ?s = "h @ CHR '':'' # ds"
  assume t: "take 3 (dropWhile is_word ?s) = ''://''"
  then obtain r where r: "dropWhile is_word ?s = CHR '':'' # r"
    by (cases "dropWhile is_word ?s") auto
  have w: "list_all not_colon (takeWhile is_word ?s)"
    using not_word_colon by (auto simp: list_all_iff not_colon_def dest: set_takeWhileD)
  have "takeWhile is_word ?s @ CHR '':'' # r = ?s"
    using takeWhile_dropWhile_id [of is_word ?s] r by simp
  then have "dropWhile not_colon (takeWhile is_word ?s @ CHR '':'' # r) = dropWhile not_colon ?s"
    by simp
  then have "r = ds" using before_colon(2) [OF w] before_colon(2) [OF h] by simp
  with t r have "take 2 ds = ''//''" by simp
  moreover from ds obtain d ds' where "ds = d # ds'" "is_digit d"
    by (cases ds) (auto simp: all_digits_def)
  ultimately show False using digit_not_slash by auto
qed

lemma hostPattern_authority:
  assumes "list_all is_word w" and "h \<noteq> []" and "list_all not_colon h" and "all_digits ds"
  shows "hostPattern (scheme_prefix w @ h @ CHR '':'' # ds) = Some (scheme_prefix w, h, CHR '':'' # ds)"
proof (cases "w = []")
  case True
  with assms no_scheme_seen [OF assms(3,4)] show ?thesis
    by (simp add: hostPattern_def scheme_prefix_def before_colon port_group_digits)
next
  case False
  let ?r = "''://'' @ h @ CHR '':'' # ds"
  from assms(1) have "takeWhile is_word (w @ ?r) = w" "dropWhile is_word (w @ ?r) = ?r"
    using not_word_colon by (simp_all add: takeWhile_append2 dropWhile_append2 list_all_iff)
  with False assms show ?thesis
    by (simp add: hostPattern_def scheme_prefix_def before_colon port_group_digits)
qed

lemma overwrite_hostname_authority:
  assumes "list_all is_word w" and "h \<noteq> []" and "list_all not_colon h" and "all_digits ds"
  shows "overwrite_hostname (scheme_prefix w @ h @ CHR '':'' # ds) r =
     (if digits_val ds < 65536 then
        Inr ((if w = [] then r else r\<lparr>protocol := Some (StaticPart w)\<rparr>)
              \<lparr>hostname := Some (StaticPart h), port := Some (StaticPart (of_nat (digits_val ds)))\<rparr>)
      else Inl (ErrParseFailed (OverridePort (CHR '':'' # ds))))"
proof -
  have "scheme_prefix w @ h @ CHR '':'' # ds \<noteq> []" using assms(2) by simp
  moreover have "take (length (scheme_prefix w) - 3) (scheme_prefix w) = w"
    by (simp add: scheme_prefix_def)
  moreover have "scheme_prefix w = [] \<longleftrightarrow> w = []"
    by (simp add: scheme_prefix_def)
  ultimately show ?thesis
    using assms
    by (simp add: overwrite_hostname_def hostPattern_authority [OF assms] ParseUint16_def Let_def)
qed

text \<open>
  C10. A host name option that ends in a colon and a number does not always put the
  number in the port slot: the pattern reads the host name up to the first colon, so
  for the IPv6 authority \<^verbatim>\<open>[::1]:8080\<close> the host name is \<^verbatim>\<open>[\<close>, no port
  is decomposed, and \<^verbatim>\<open>overwrite\<close> succeeds with the port slot of the source.
\<close>

theorem override_port_counterexample:
  "overwrite empty_parseResult (no_opt\<lparr>Hostname := ''[::1]:8080''\<rparr>) =
     Inr (empty_parseResult\<lparr>hostname := Some (StaticPart ''['')\<rparr>) \<and>
   port (empty_parseResult\<lparr>hostname := Some (StaticPart ''['')\<rparr>) \<noteq> Some (StaticPart 8080)"
  by (simp add: no_opt_def empty_parseResult_def overwrite_eval digit_eval)

text \<open>
  C10, as the code has it. For a host name option \<^verbatim>\<open>host:digits\<close>, with or without
  a scheme before it, whose host is not empty and has no colon, the decomposition
  succeeds with the number in the port slot exactly when the number is below 65536, and
  fails otherwise; 0 is accepted, unlike a port literal of a template. With no explicit
  port option and with credentials that are both set or both empty, this decides
  \<^verbatim>\<open>overwrite\<close> and its port slot.
\<close>

theorem override_port_range:
  assumes "Hostname opt = scheme_prefix w @ h @ '':'' @ ds"
    and "list_all is_word w" and "h \<noteq> []" and "list_all not_colon h" and "all_digits ds"
  shows "(case overwrite_hostname (Hostname opt) r of
            Inl e \<Rightarrow> \<not> digits_val ds < 2 ^ 16 \<and> e = ErrParseFailed (OverridePort (CHR '':'' # ds))
          | Inr r' \<Rightarrow> digits_val ds < 2 ^ 16 \<and> hostname r' = Some (StaticPart h) \<and>
                     port r' = Some (StaticPart (of_nat (digits_val ds)))) \<and>
         (Port opt = 0 \<and> (Username opt = [] \<longleftrightarrow> Password opt = []) \<longrightarrow>
          (case overwrite src opt of
             Inl e \<Rightarrow> \<not> digits_val ds < 2 ^ 16 \<and> e = ErrParseFailed (OverridePort (CHR '':'' # ds))
           | Inr r' \<Rightarrow> digits_val ds < 2 ^ 16 \<and> hostname r' = Some (StaticPart h) \<and>
                      port r' = Some (StaticPart (of_nat (digits_val ds))) \<and>
                      unat (of_nat (digits_val ds) :: 16 word) = digits_val ds))"
proof -
  note hn = overwrite_hostname_authority [OF assms(2-5)]
  have small: "unat (of_nat n :: 16 word) = n" if "n < 65536" for n
    using that by (simp add: unat_of_nat)
  have hostname: "Hostname opt = scheme_prefix w @ h @ CHR '':'' # ds"
    using assms(1) by simp
  show ?thesis
    unfolding overwrite_def hostname hn
    by (auto simp: Let_def small)
qed

theorem override_port_range_witness:
  "(case overwrite empty_parseResult (no_opt\<lparr>Hostname := ''example.com:0''\<rparr>) of
      Inl e \<Rightarrow> False | Inr r \<Rightarrow> port r = Some (StaticPart 0)) \<and>
   (case overwrite empty_parseResult (no_opt\<lparr>Hostname := ''https://api.example.com:65535''\<rparr>) of
      Inl e \<Rightarrow> False | Inr r \<Rightarrow> port r = Some (StaticPart 65535)) \<and>
   overwrite empty_parseResult (no_opt\<lparr>Hostname := ''example.com:65536''\<rparr>) =
      Inl (ErrParseFailed (OverridePort '':65536''))"
proof -
  have w: "list_all is_word []" "list_all is_word ''https''"
    by (simp_all add: is_word_def is_alnum_def)
  have h: "list_all not_colon ''example.com''" "list_all not_colon ''api.example.com''"
    by (simp_all add: not_colon_def)
  have d: "all_digits ''0''" "all_digits ''65535''" "all_digits ''65536''"
    "digits_val ''0'' = 0" "digits_val ''65535'' = 65535" "digits_val ''65536'' = 65536"
    by (simp_all add: digit_eval)
  have 1: "Hostname (no_opt\<lparr>Hostname := ''example.com:0''\<rparr>) =
           scheme_prefix [] @ ''example.com'' @ '':'' @ ''0''"
    and 2: "Hostname (no_opt\<lparr>Hostname := ''https://api.example.com:65535''\<rparr>) =
           scheme_prefix ''https'' @ ''api.example.com'' @ '':'' @ ''65535''"
    and 3: "Hostname (no_opt\<lparr>Hostname := ''example.com:65536''\<rparr>) =
           scheme_prefix [] @ ''example.com'' @ '':'' @ ''65536''"
    by (simp_all add: scheme_prefix_def)
  show ?thesis
    using override_port_range [OF 1 w(1) _ h(1) d(1), of empty_parseResult empty_parseResult]
      override_port_range [OF 2 w(2) _ h(2) d(2), of empty_parseResult empty_parseResult]
      override_port_range [OF 3 w(1) _ h(1) d(3), of empty_parseResult empty_parseResult]
    by (auto simp: d no_opt_def split: sum.splits)
qed

section \<open>A path string and the list of its segments\<close>

lemma split_slash_no_slash: "CHR ''/'' \<notin> set s \<Longrightarrow> split_slash s = [s]"
  by (induction s) auto

lemma split_slash_append:
  "CHR ''/'' \<notin> set seg \<Longrightarrow> split_slash (seg @ CHR ''/'' # rest) = seg # split_slash rest"
  by (induction seg) auto

lemma no_double_slash_suffix: "no_double_slash (a @ b) \<Longrightarrow> no_double_slash b"
proof (induction a)
  case Nil
  then show ?case by simp
next
  case (Cons x a)
  then show ?case by (cases "a @ b") auto
qed

lemma joinPath_no_slash:
  "X = [] \<or> last X \<noteq> CHR ''/'' \<Longrightarrow> joinPath X p = X @ p"
  by (auto simp: joinPath_def)

lemma joinPath_keeps_slash:
  assumes "p \<noteq> []" and "last p = CHR ''/''"
  shows "joinPath X p \<noteq> [] \<and> last (joinPath X p) = CHR ''/''"
proof (cases "X \<noteq> [] \<and> last X = CHR ''/'' \<and> hd p = CHR ''/''")
  case True
  then have "joinPath X p = X @ tl p" using assms by (simp add: joinPath_def)
  with True assms show ?thesis by (cases "tl p = []") (auto simp: last_tl)
next
  case False
  with assms have "joinPath X p = X @ p" by (auto simp: joinPath_def)
  with assms show ?thesis by simp
qed

lemma join_segments:
  "no_double_slash (CHR ''/'' # s) \<Longrightarrow>
     foldl joinPath X (map ((#) CHR ''/'') (split_slash s)) = joinPath X (CHR ''/'' # s)"
proof (induction s arbitrary: X rule: length_induct)
  case (1 s)
  show ?case
  proof (cases "CHR ''/'' \<in> set s")
    case False
    then show ?thesis by (simp add: split_slash_no_slash)
  next
    case True
    then obtain seg rest where s: "s = seg @ CHR ''/'' # rest" and seg: "CHR ''/'' \<notin> set seg"
      by (auto dest: split_list_first)
    from "1.prems" s have ne: "seg \<noteq> []" by (cases seg) auto
    from "1.prems" s have rest: "no_double_slash (CHR ''/'' # rest)"
      using no_double_slash_suffix [of "CHR ''/'' # seg" "CHR ''/'' # rest"] by simp
    let ?X1 = "joinPath X (CHR ''/'' # seg)"
    have X1: "?X1 = (if X \<noteq> [] \<and> last X = CHR ''/'' then X @ seg else X @ CHR ''/'' # seg)"
      by (simp add: joinPath_def)
    from ne seg have "last seg \<noteq> CHR ''/''"
      using last_in_set [of seg] by metis
    with ne have "?X1 \<noteq> []" "last ?X1 \<noteq> CHR ''/''"
      unfolding X1 by auto
    then have step: "joinPath ?X1 (CHR ''/'' # rest) = ?X1 @ CHR ''/'' # rest"
      by (simp add: joinPath_no_slash)
    have "foldl joinPath X (map ((#) CHR ''/'') (split_slash s)) =
          foldl joinPath ?X1 (map ((#) CHR ''/'') (split_slash rest))"
      using seg by (simp add: s split_slash_append)
    also have "\<dots> = joinPath ?X1 (CHR ''/'' # rest)"
      using "1.IH" rest by (simp add: s)
    also have "\<dots> = ?X1 @ CHR ''/'' # rest" by (rule step)
    also have "\<dots> = joinPath X (CHR ''/'' # s)"
      unfolding X1 by (simp add: s joinPath_def)
    finally show ?thesis .
  qed
qed

lemma join_split:
  assumes "X \<noteq> []" and "last X = CHR ''/''" and "no_double_slash s"
  shows "foldl joinPath X (map ((#) CHR ''/'') (split_slash s)) = joinPath X s"
proof (cases s)
  case Nil
  with assms show ?thesis by (simp add: joinPath_def)
next
  case (Cons c s')
  show ?thesis
  proof (cases "c = CHR ''/''")
    case True
    have "joinPath X ''/'' = X" using assms by (simp add: joinPath_def)
    then have "foldl joinPath X (map ((#) CHR ''/'') (split_slash s)) =
          foldl joinPath X (map ((#) CHR ''/'') (split_slash s'))"
      using Cons True by simp
    also have "\<dots> = joinPath X (CHR ''/'' # s')"
      using assms(3) Cons True by (intro join_segments) simp
    finally show ?thesis using Cons True by simp
  next
    case False
    with assms(3) Cons have "no_double_slash (CHR ''/'' # s)" by simp
    from join_segments [OF this, of X] assms False Cons show ?thesis
      by (simp add: joinPath_def)
  qed
qed

lemma pathSlice_strings: "pathSlice (map AString segs) ps = Inr (ps @ map ((#) CHR ''/'') segs)"
  by (induction segs arbitrary: ps) (simp_all add: scalar_text_def)

lemma pathSlice_acc:
  "pathSlice es ps = (case pathSlice es [] of Inl e \<Rightarrow> Inl e | Inr r \<Rightarrow> Inr (ps @ r))"
proof (induction es arbitrary: ps)
  case Nil
  then show ?case by simp
next
  case (Cons e es)
  show ?case
  proof (cases "scalar_text e")
    case (Inl f)
    then show ?thesis by simp
  next
    case (Inr x)
    show ?thesis
    proof (cases x)
      case None
      with Inr Cons.IH [of ps] show ?thesis by simp
    next
      case (Some v)
      with Inr Cons.IH [of "ps @ [CHR ''/'' # v]"] Cons.IH [of "[CHR ''/'' # v]"]
      show ?thesis by (simp split: sum.splits)
    qed
  qed
qed

lemma pathArg_acc:
  "pathArg a ps = (case pathArg a [] of Inl e \<Rightarrow> Inl e | Inr r \<Rightarrow> Inr (ps @ r))"
proof (cases a)
  case (ASlice es)
  then show ?thesis using pathSlice_acc [of es ps] by (simp add: pathArg_def)
qed (auto simp: pathArg_def scalar_text_def split: option.splits)

lemma bindPaths_acc:
  "bindPaths parts args ps =
     (case bindPaths parts args [] of Inl e \<Rightarrow> Inl e | Inr r \<Rightarrow> Inr (ps @ r))"
proof (induction parts arbitrary: ps)
  case Nil
  then show ?case by simp
next
  case (Cons x parts)
  show ?case
  proof (cases x)
    case (StaticPart v)
    with Cons.IH [of "ps @ [v]"] Cons.IH [of "[v]"] show ?thesis
      by (simp split: sum.splits)
  next
    case (ParamPart i)
    show ?thesis
    proof (cases "arg_at args i")
      case (Inl e)
      with ParamPart show ?thesis by simp
    next
      case (Inr a)
      show ?thesis
      proof (cases "pathArg a []")
        case (Inl e)
        with Inr ParamPart pathArg_acc [of a ps] show ?thesis by simp
      next
        case r: (Inr r)
        with Inr ParamPart pathArg_acc [of a ps] Cons.IH [of "ps @ r"] Cons.IH [of r]
        show ?thesis by (simp split: sum.splits)
      qed
    qed
  qed
qed

lemma bindPaths_append:
  "bindPaths (p1 @ p2) args ps =
     (case bindPaths p1 args ps of Inl e \<Rightarrow> Inl e | Inr ps' \<Rightarrow> bindPaths p2 args ps')"
proof (induction p1 arbitrary: ps)
  case Nil
  then show ?case by simp
next
  case (Cons x p1)
  then show ?case by (cases x) (auto split: sum.splits)
qed

lemma arg_at_update: "j \<noteq> i \<Longrightarrow> arg_at (args[i := a]) j = arg_at args j"
  by (simp add: arg_at_def)

lemma bindPaths_update:
  "ParamPart i \<notin> set parts \<Longrightarrow> bindPaths parts (args[i := a]) ps = bindPaths parts args ps"
proof (induction parts arbitrary: ps)
  case Nil
  then show ?case by simp
next
  case (Cons x parts)
  then show ?case by (cases x) (auto simp: arg_at_update cong: sum.case_cong)
qed

lemma bindQueries_update:
  "ParamPart i \<notin> qvalue ` set qs \<Longrightarrow> bindQueries qs (args[i := a]) q = bindQueries qs args q"
proof (induction qs arbitrary: q)
  case Nil
  then show ?case by simp
next
  case (Cons qp qs)
  then have "bindQuery qp (args[i := a]) q = bindQuery qp args q"
    by (cases "qvalue qp") (auto simp: bindQuery_def arg_at_update)
  with Cons show ?case by (simp cong: sum.case_cong)
qed

lemma slots_update:
  assumes "\<not> refers t i"
  shows "bindScheme t (args[i := a]) = bindScheme t args"
    and "bindHost t (args[i := a]) s = bindHost t args s"
    and "bindPort t (args[i := a]) h = bindPort t args h"
    and "bindFragment t (args[i := a]) = bindFragment t args"
    and "bindQueries (queries t) (args[i := a]) q = bindQueries (queries t) args q"
proof -
  from assms show "bindScheme t (args[i := a]) = bindScheme t args"
    by (auto simp: refers_def bindScheme_def arg_at_update split: option.splits part.splits)
  from assms show "bindHost t (args[i := a]) s = bindHost t args s"
    by (auto simp: refers_def bindHost_def arg_at_update split: option.splits part.splits)
  from assms show "bindPort t (args[i := a]) h = bindPort t args h"
    by (auto simp: refers_def bindPort_def arg_at_update split: option.splits part.splits)
  from assms show "bindFragment t (args[i := a]) = bindFragment t args"
    by (auto simp: refers_def bindFragment_def arg_at_update split: option.splits part.splits)
  from assms show "bindQueries (queries t) (args[i := a]) q = bindQueries (queries t) args q"
    by (intro bindQueries_update) (simp add: refers_def)
qed

lemma foldl_joinPath_slash:
  assumes "p \<noteq> []" and "last p = CHR ''/''"
  shows "foldl joinPath X (ps @ [p]) \<noteq> [] \<and> last (foldl joinPath X (ps @ [p])) = CHR ''/''"
  using joinPath_keeps_slash [OF assms] by simp

text \<open>
  The path of the URL when one path placeholder, after a static part that ends in a
  slash, is bound to \<^term>\<open>a\<close>: what the parts before it give, then the argument, then
  the parts after it.
\<close>

lemma path_of_placeholder:
  assumes parts: "parts = pre @ StaticPart p # ParamPart i # post"
    and free: "ParamPart i \<notin> set pre \<union> set post" and i: "i < length args"
  shows "bindPaths parts (args[i := a]) [] =
     (case bindPaths pre args [] of
        Inl e \<Rightarrow> Inl e
      | Inr ps \<Rightarrow>
          (case pathArg a [] of
             Inl e \<Rightarrow> Inl e
           | Inr mid \<Rightarrow>
               (case bindPaths post args [] of
                  Inl e \<Rightarrow> Inl e
                | Inr ps' \<Rightarrow> Inr (ps @ [p] @ mid @ ps'))))"
proof -
  have pre: "bindPaths pre (args[i := a]) [] = bindPaths pre args []"
    and post: "bindPaths post (args[i := a]) ps = bindPaths post args ps" for ps
    using free by (simp_all add: bindPaths_update)
  have at: "arg_at (args[i := a]) i = Inr a" using i by (simp add: arg_at_def)
  show ?thesis
  proof (cases "bindPaths pre args []")
    case (Inl e)
    with pre show ?thesis by (simp add: parts bindPaths_append)
  next
    case (Inr ps)
    show ?thesis
    proof (cases "pathArg a []")
      case (Inl e)
      with Inr pre at pathArg_acc [of a "ps @ [p]"] show ?thesis
        by (simp add: parts bindPaths_append)
    next
      case mid: (Inr mid)
      with Inr pre at pathArg_acc [of a "ps @ [p]"] post bindPaths_acc [of post args "ps @ p # mid"]
      show ?thesis
        by (simp add: parts bindPaths_append split: sum.splits)
    qed
  qed
qed

lemma substitute_path_eqI:
  assumes "bindScheme t args = bindScheme t args'"
    and "\<And>s. bindHost t args s = bindHost t args' s"
    and "\<And>h. bindPort t args h = bindPort t args' h"
    and "bindPaths (paths t) args [] = Inr ps" and "bindPaths (paths t) args' [] = Inr ps'"
    and "foldl joinPath [] ps = foldl joinPath [] ps'"
    and "bindQueries (queries t) args [] = bindQueries (queries t) args' []"
    and "bindFragment t args = bindFragment t args'"
  shows "substitute t args = substitute t args'"
  using assms by (simp add: substitute_def cong: sum.case_cong)

lemma escape_path_slash: "escape_byte encodePath CHR ''/'' = ''/''"
  by (simp add: escape_byte_def shouldEscape_def is_alnum_def)

lemma split_slash_not_Nil: "split_slash s \<noteq> []"
  by (induction s) auto

lemma join_slash_Cons_append: "join_slash ((a @ x) # xs) = a @ join_slash (x # xs)"
  by (cases xs) simp_all

lemma escape_segments:
  "escape s encodePath = join_slash (map (\<lambda>seg. escape seg encodePath) (split_slash s))"
proof (induction s)
  case Nil
  then show ?case by (simp add: escape_def)
next
  case (Cons c cs)
  obtain h tl where sp: "split_slash cs = h # tl"
    using split_slash_not_Nil [of cs] by (cases "split_slash cs") auto
  show ?case
  proof (cases "c = CHR ''/''")
    case True
    with Cons sp show ?thesis by (simp add: escape_def escape_path_slash)
  next
    case False
    have "escape (c # h) encodePath = escape_byte encodePath c @ escape h encodePath"
      by (simp add: escape_def)
    with False Cons sp show ?thesis
      by (simp add: join_slash_Cons_append) (simp add: escape_def)
  qed
qed

lemma shouldEscape_high: "128 \<le> (of_char c :: nat) \<Longrightarrow> shouldEscape c encodePath"
proof -
  assume h: "128 \<le> (of_char c :: nat)"
  then have "\<not> is_alnum c" by (simp add: is_alnum_def)
  moreover have "c \<notin> set ''-_.~''" "c \<notin> set ''$&+,/:;=?@''" using h by auto
  ultimately show ?thesis by (simp add: shouldEscape_def)
qed

lemma upperhex_ascii: "n < 16 \<Longrightarrow> (of_char (upperhex n) :: nat) < 128"
proof -
  assume "n < 16"
  then have "upperhex n \<in> set ''0123456789ABCDEF''"
    unfolding upperhex_def by (intro nth_mem) simp
  then show ?thesis by auto
qed

lemma escape_byte_ascii:
  assumes "d \<in> set (escape_byte encodePath c)"
  shows "(of_char d :: nat) < 128"
proof (cases "shouldEscape c encodePath")
  case True
  have "(of_char c :: nat) < 256" by simp
  then have "(of_char c :: nat) div 16 < 16" by (simp add: div_less_iff_less_mult)
  with True assms upperhex_ascii [of "of_char c div 16"] upperhex_ascii [of "of_char c mod 16"]
  show ?thesis by (auto simp: escape_byte_def)
next
  case False
  with shouldEscape_high [of c] have "(of_char c :: nat) < 128" by (cases "128 \<le> (of_char c :: nat)") auto
  with False assms show ?thesis by (auto simp: escape_byte_def)
qed

lemma escape_ascii: "d \<in> set (escape s encodePath) \<Longrightarrow> (of_char d :: nat) < 128"
  by (auto simp: escape_def dest: escape_byte_ascii)

lemma joinPath_prefix: "\<exists>r. joinPath X p = X @ r"
  by (simp add: joinPath_def)

lemma foldl_joinPath_prefix: "\<exists>r. foldl joinPath X ps = X @ r"
proof (induction ps arbitrary: X)
  case Nil
  then show ?case by simp
next
  case (Cons p ps)
  from joinPath_prefix [of X p] obtain r where "joinPath X p = X @ r" ..
  with Cons [of "X @ r"] show ?case by auto
qed

lemma no_double_slash_append:
  "no_double_slash (a @ b) \<longleftrightarrow>
     no_double_slash a \<and> no_double_slash b \<and>
     \<not> (a \<noteq> [] \<and> last a = CHR ''/'' \<and> b \<noteq> [] \<and> hd b = CHR ''/'')"
proof (induction a rule: no_double_slash.induct)
  fix x y r
  assume "no_double_slash ((y # r) @ b) \<longleftrightarrow>
     no_double_slash (y # r) \<and> no_double_slash b \<and>
     \<not> (y # r \<noteq> [] \<and> last (y # r) = CHR ''/'' \<and> b \<noteq> [] \<and> hd b = CHR ''/'')"
  then show "no_double_slash ((x # y # r) @ b) \<longleftrightarrow>
     no_double_slash (x # y # r) \<and> no_double_slash b \<and>
     \<not> (x # y # r \<noteq> [] \<and> last (x # y # r) = CHR ''/'' \<and> b \<noteq> [] \<and> hd b = CHR ''/'')"
    by auto
next
  show "no_double_slash ([] @ b) \<longleftrightarrow>
     no_double_slash [] \<and> no_double_slash b \<and>
     \<not> ([] \<noteq> [] \<and> last [] = CHR ''/'' \<and> b \<noteq> [] \<and> hd b = CHR ''/'')"
    by simp
next
  fix x
  show "no_double_slash ([x] @ b) \<longleftrightarrow>
     no_double_slash [x] \<and> no_double_slash b \<and>
     \<not> ([x] \<noteq> [] \<and> last [x] = CHR ''/'' \<and> b \<noteq> [] \<and> hd b = CHR ''/'')"
    by (cases b) auto
qed

lemma joinPath_no_double:
  assumes "no_double_slash X" and "no_double_slash p"
  shows "no_double_slash (joinPath X p)"
proof (cases "X \<noteq> [] \<and> last X = CHR ''/'' \<and> p \<noteq> [] \<and> hd p = CHR ''/''")
  case True
  then obtain p' where p: "p = CHR ''/'' # p'" by (cases p) auto
  with assms(2) have "no_double_slash p'" "p' = [] \<or> hd p' \<noteq> CHR ''/''"
    by (cases p'; simp)+
  with True p assms(1) show ?thesis by (auto simp: joinPath_def no_double_slash_append)
next
  case False
  with assms show ?thesis by (auto simp: joinPath_def no_double_slash_append)
qed

lemma foldl_joinPath_no_double:
  "no_double_slash X \<Longrightarrow> list_all no_double_slash ps \<Longrightarrow> no_double_slash (foldl joinPath X ps)"
  by (induction ps arbitrary: X) (simp_all add: joinPath_no_double)

lemma URL_String_path:
  "\<exists>head. URL_String u =
     head @ EscapedPath u @ (if RawQuery u \<noteq> [] then ''?'' @ RawQuery u else []) @
     (if Fragment u \<noteq> [] then ''#'' @ EscapedFragment u else [])"
  unfolding URL_String_def Let_def by (rule exI, rule refl)

text \<open>
  C5. A string with two adjacent slashes bound to a path placeholder keeps both, where
  the list of its segments loses the empty one: the two outputs differ.
\<close>

theorem path_string_split_counterexample:
  "TryUrlf ''http://api.example.com/users/{}/'' [AString ''a//b''] =
     Some (Inr ''http://api.example.com/users/a//b/'') \<and>
   TryUrlf ''http://api.example.com/users/{}/'' [ASlice (map AString (split_slash ''a//b''))] =
     Some (Inr ''http://api.example.com/users/a/b/'')"
  by (simp add: formatter_eval parse_eval digit_eval overwrite_eval bind_eval url_eval)

text \<open>
  C5, as the code has it. The formatter does not split a string: it appends it to the
  path as it is, and a slice element with a slash before it, dropping one slash where two
  meet at a join. For a path placeholder after a static part that ends in a slash and a
  string without two adjacent slashes, the string and the list of its segments give the
  same URL. When the formatter returns, its output is the printed URL; the path in it is
  the escaped path, which is the slash-separated segments of the path, each escaped on
  its own, and has no byte outside ASCII. The path is the parts before the placeholder,
  the string and the parts after it, joined; it has no two adjacent slashes when none
  of them has.
\<close>

theorem path_string_as_segments:
  assumes "paths t = pre @ StaticPart p # ParamPart i # post"
    and "p \<noteq> []" and "last p = CHR ''/''"
    and "ParamPart i \<notin> set pre \<union> set post" and "\<not> refers t i" and "i < length args"
    and "no_double_slash s"
  shows "substitute t (args[i := AString s]) =
           substitute t (args[i := ASlice (map AString (split_slash s))]) \<and>
         format_template t (args[i := AString s]) =
           format_template t (args[i := ASlice (map AString (split_slash s))]) \<and>
         (\<forall>u. substitute t (args[i := AString s]) = Inr u \<longrightarrow>
            format_template t (args[i := AString s]) = Inr (URL_String u) \<and>
            (\<exists>head. URL_String u =
               head @ EscapedPath u @ (if RawQuery u \<noteq> [] then ''?'' @ RawQuery u else []) @
               (if Fragment u \<noteq> [] then ''#'' @ EscapedFragment u else [])) \<and>
            EscapedPath u = join_slash (map (\<lambda>seg. escape seg encodePath) (split_slash (Path u))) \<and>
            (\<forall>c\<in>set (EscapedPath u). (of_char c :: nat) < 128) \<and>
            (\<exists>ps ps'. bindPaths pre args [] = Inr ps \<and> bindPaths post args [] = Inr ps' \<and>
               Path u = foldl joinPath (joinPath (foldl joinPath [] (ps @ [p])) s) ps' \<and>
               (list_all no_double_slash (ps @ [p] @ ps') \<longrightarrow> no_double_slash (Path u))))"
proof -
  let ?a1 = "args[i := AString s]" and ?a2 = "args[i := ASlice (map AString (split_slash s))]"
  note p1 = path_of_placeholder [OF assms(1,4,6), of "AString s"]
  note p2 = path_of_placeholder [OF assms(1,4,6), of "ASlice (map AString (split_slash s))"]
  have m1: "pathArg (AString s) [] = Inr [s]"
    by (simp add: pathArg_def scalar_text_def)
  have m2: "pathArg (ASlice (map AString (split_slash s))) [] = Inr (map ((#) CHR ''/'') (split_slash s))"
    by (simp add: pathArg_def pathSlice_strings)
  have subst: "substitute t ?a1 = substitute t ?a2"
  proof (cases "bindPaths pre args []")
    case (Inl e)
    with p1 p2 have "bindPaths (paths t) ?a1 [] = bindPaths (paths t) ?a2 []" by simp
    then show ?thesis
      by (intro substitute_eqI) (simp_all add: slots_update [OF assms(5)])
  next
    case (Inr ps)
    show ?thesis
    proof (cases "bindPaths post args []")
      case (Inl e)
      with Inr p1 p2 m1 m2 have "bindPaths (paths t) ?a1 [] = bindPaths (paths t) ?a2 []" by simp
      then show ?thesis
        by (intro substitute_eqI) (simp_all add: slots_update [OF assms(5)])
    next
      case post: (Inr ps')
      let ?X = "foldl joinPath [] (ps @ [p])"
      from foldl_joinPath_slash [OF assms(2,3), of "[]" ps]
      have X: "?X \<noteq> []" "last ?X = CHR ''/''" by simp_all
      have b1: "bindPaths (paths t) ?a1 [] = Inr (ps @ [p] @ [s] @ ps')"
        using Inr post p1 m1 by simp
      have b2: "bindPaths (paths t) ?a2 [] = Inr (ps @ [p] @ map ((#) CHR ''/'') (split_slash s) @ ps')"
        using Inr post p2 m2 by simp
      have "foldl joinPath ?X (map ((#) CHR ''/'') (split_slash s)) = joinPath ?X s"
        by (rule join_split [OF X assms(7)])
      then have j: "foldl joinPath [] (ps @ [p] @ [s] @ ps') =
               foldl joinPath [] (ps @ [p] @ map ((#) CHR ''/'') (split_slash s) @ ps')"
        by simp
      show ?thesis
        by (rule substitute_path_eqI [OF _ _ _ b1 b2 j]) (simp_all add: slots_update [OF assms(5)])
    qed
  qed
  have out: "format_template t ?a1 = Inr (URL_String u) \<and>
            (\<exists>head. URL_String u =
               head @ EscapedPath u @ (if RawQuery u \<noteq> [] then ''?'' @ RawQuery u else []) @
               (if Fragment u \<noteq> [] then ''#'' @ EscapedFragment u else [])) \<and>
            EscapedPath u = join_slash (map (\<lambda>seg. escape seg encodePath) (split_slash (Path u))) \<and>
            (\<forall>c\<in>set (EscapedPath u). (of_char c :: nat) < 128) \<and>
            (\<exists>ps ps'. bindPaths pre args [] = Inr ps \<and> bindPaths post args [] = Inr ps' \<and>
               Path u = foldl joinPath (joinPath (foldl joinPath [] (ps @ [p])) s) ps' \<and>
               (list_all no_double_slash (ps @ [p] @ ps') \<longrightarrow> no_double_slash (Path u)))"
    if u: "substitute t ?a1 = Inr u" for u
  proof -
    from u obtain pss where pss: "bindPaths (paths t) ?a1 [] = Inr pss"
      and path: "Path u = foldl joinPath [] pss"
      by (auto simp: substitute_def split: sum.splits)
    from pss p1 m1 obtain ps ps' where ps: "bindPaths pre args [] = Inr ps"
      and ps': "bindPaths post args [] = Inr ps'" and eq: "pss = ps @ [p] @ [s] @ ps'"
      by (auto split: sum.splits)
    let ?X = "foldl joinPath [] (ps @ [p])"
    from foldl_joinPath_slash [OF assms(2,3), of "[]" ps]
    have X: "?X \<noteq> []" "last ?X = CHR ''/''" by simp_all
    have form: "Path u = foldl joinPath (joinPath ?X s) ps'"
      by (simp add: path eq)
    obtain r1 where r1: "joinPath ?X s = ?X @ r1" using joinPath_prefix by blast
    obtain r2 where r2: "foldl joinPath (?X @ r1) ps' = (?X @ r1) @ r2"
      using foldl_joinPath_prefix by blast
    from X have "CHR ''/'' \<in> set ?X" using last_in_set by metis
    then have "CHR ''/'' \<in> set (Path u)" unfolding form r1 r2 by simp
    then have "Path u \<noteq> ''*''" by auto
    then have esc: "EscapedPath u = escape (Path u) encodePath" by (simp add: EscapedPath_def)
    have nd: "no_double_slash (Path u)" if "list_all no_double_slash (ps @ [p] @ ps')"
      unfolding path eq using that assms(7) by (intro foldl_joinPath_no_double) simp_all
    have "format_template t ?a1 = Inr (URL_String u)" using u by (simp add: format_template_def)
    moreover note URL_String_path [of u]
    moreover have "EscapedPath u = join_slash (map (\<lambda>seg. escape seg encodePath) (split_slash (Path u)))"
      unfolding esc by (rule escape_segments)
    moreover have "\<forall>c\<in>set (EscapedPath u). (of_char c :: nat) < 128"
      unfolding esc using escape_ascii by blast
    ultimately show ?thesis using ps ps' form nd by blast
  qed
  have fmt: "format_template t ?a1 = format_template t ?a2"
    using subst by (simp add: format_template_def)
  from subst fmt out show ?thesis by blast
qed

theorem path_string_as_segments_witness:
  "format_template
     (empty_parseResult\<lparr>hostname := Some (StaticPart ''api.example.com''),
        paths := [StaticPart ''/users/'', ParamPart 0, StaticPart ''/'']\<rparr>)
     [AString (''a/b/'' @ [CHR 0xF0, CHR 0x9F, CHR 0x90, CHR 0x99])] =
       Inr ''//api.example.com/users/a/b/%F0%9F%90%99/'' \<and>
   format_template
     (empty_parseResult\<lparr>hostname := Some (StaticPart ''api.example.com''),
        paths := [StaticPart ''/users/'', ParamPart 0, StaticPart ''/'']\<rparr>)
     [ASlice [AString ''a'', AString ''b'', AString [CHR 0xF0, CHR 0x9F, CHR 0x90, CHR 0x99]]] =
       Inr ''//api.example.com/users/a/b/%F0%9F%90%99/'' \<and>
   EscapedPath \<lparr>Scheme = [], User = None, Host = ''api.example.com'',
      Path = ''/users/a/b/'' @ [CHR 0xF0, CHR 0x9F, CHR 0x90, CHR 0x99] @ ''/'',
      RawQuery = [], Fragment = []\<rparr> =
     join_slash [[], ''users'', ''a'', ''b'', ''%F0%9F%90%99'', []]"
proof -
  define t where "t = empty_parseResult\<lparr>hostname := Some (StaticPart ''api.example.com''),
        paths := [StaticPart ''/users/'', ParamPart 0, StaticPart ''/'']\<rparr>"
  define s where "s = ''a/b/'' @ [CHR 0xF0, CHR 0x9F, CHR 0x90, CHR 0x99]"
  define u where "u = \<lparr>Scheme = [], User = None, Host = ''api.example.com'',
      Path = ''/users/a/b/'' @ [CHR 0xF0, CHR 0x9F, CHR 0x90, CHR 0x99] @ ''/'',
      RawQuery = [], Fragment = []\<rparr>"
  have 1: "paths t = [] @ StaticPart ''/users/'' # ParamPart 0 # [StaticPart ''/'']"
    by (simp add: t_def)
  have 2: "\<not> refers t 0" by (simp add: refers_def t_def empty_parseResult_def)
  have 3: "no_double_slash s" by (simp add: s_def)
  have 4: "split_slash s = [''a'', ''b'', [CHR 0xF0, CHR 0x9F, CHR 0x90, CHR 0x99]]"
    by (simp add: s_def)
  have run: "substitute t ([ANil][0 := AString s]) = Inr u"
    by (simp add: t_def s_def u_def empty_parseResult_def bind_eval url_eval digit_eval)
  note inst = path_string_as_segments [OF 1 _ _ _ 2 _ 3, of "[ANil]"]
  from inst have same: "format_template t [AString s] =
        format_template t [ASlice [AString ''a'', AString ''b'', AString [CHR 0xF0, CHR 0x9F, CHR 0x90, CHR 0x99]]]"
    by (simp add: 4)
  from inst run have "EscapedPath u = join_slash (map (\<lambda>seg. escape seg encodePath) (split_slash (Path u)))"
    by simp
  then have esc: "EscapedPath u = join_slash [[], ''users'', ''a'', ''b'', ''%F0%9F%90%99'', []]"
    by (simp add: u_def escape_def escape_byte_def shouldEscape_def is_alnum_def upperhex_def)
  have out: "format_template t [AString s] = Inr ''//api.example.com/users/a/b/%F0%9F%90%99/''"
    by (simp add: t_def s_def empty_parseResult_def bind_eval url_eval digit_eval)
  from same out esc show ?thesis unfolding t_def s_def u_def by simp
qed

end
